theory Spec2Isabelle
  imports Complex_Main "HOL-Library.Word"
begin

section \<open>Typed views over device memory (modules/cuda/src/buffer.ts)\<close>

text \<open>
  JavaScript numbers are modelled as rationals: every quantity of the module is built
  from integers with \<open>+\<close>, \<open>-\<close>, \<open>*\<close>, \<open>min\<close>, \<open>max\<close> and a division by an
  element size (1, 2, 4 or 8), all of which are exact on doubles below \<open>2^53\<close>.
  What unary plus yields is a \<open>jsnum\<close>: a number or \<open>NaN\<close>; the two infinities are
  left out. An argument that still has to be coerced is a \<open>jsvalue\<close>: a value that unary
  plus turns into a \<open>jsnum\<close> (a number itself, a numeric string, \<open>undefined\<close> or any other
  value that becomes \<open>NaN\<close>), or a Symbol or a BigInt, on which unary plus raises a
  \<open>TypeError\<close>.
\<close>

type_synonym byte = "8 word"

datatype jsnum = NaN | Num rat

datatype jsvalue = Coerces jsnum | SymbolValue | BigIntValue int

datatype error = AllocationFailure | CopyFailure | RangeError | TypeError | NoSuchObject

subsection \<open>The eleven typed-array constructors\<close>

datatype TypedArray =
    Int8Array | Int16Array | Int32Array | Uint8Array | Uint8ClampedArray
  | Uint16Array | Uint32Array | Float32Array | Float64Array
  | BigInt64Array | BigUint64Array

fun BYTES_PER_ELEMENT :: "TypedArray \<Rightarrow> nat" where
  "BYTES_PER_ELEMENT Int8Array = 1"
| "BYTES_PER_ELEMENT Int16Array = 2"
| "BYTES_PER_ELEMENT Int32Array = 4"
| "BYTES_PER_ELEMENT Uint8Array = 1"
| "BYTES_PER_ELEMENT Uint8ClampedArray = 1"
| "BYTES_PER_ELEMENT Uint16Array = 2"
| "BYTES_PER_ELEMENT Uint32Array = 4"
| "BYTES_PER_ELEMENT Float32Array = 4"
| "BYTES_PER_ELEMENT Float64Array = 8"
| "BYTES_PER_ELEMENT BigInt64Array = 8"
| "BYTES_PER_ELEMENT BigUint64Array = 8"

abbreviation BPE :: "TypedArray \<Rightarrow> rat" where
  "BPE T \<equiv> of_nat (BYTES_PER_ELEMENT T)"

subsection \<open>Device memory: the store of handles\<close>

text \<open>
  A memory handle is an object of the store; a view refers to it by its position, so
  that two views of one handle alias the same bytes.
\<close>

record Memory =
  bytes :: "byte list"
  capacity :: nat

type_synonym heap = "Memory list"

definition is_index :: "rat \<Rightarrow> bool" where
  "is_index r \<longleftrightarrow> 0 \<le> r \<and> r = of_int \<lfloor>r\<rfloor>"

text \<open>
  Modelled from the spec: the default allocator \<open>new DeviceMemory(byteLength)\<close> of
  memory.ts, which is not among the sources. The spec gives
  \<open>allocate(byteLength: non-negative integer) -> handle\<close> with
  \<open>capacity == byteLength\<close> for a fresh handle; any other request is a failure here.
  The fresh bytes are zero.
\<close>

definition allocateMemory :: "heap \<Rightarrow> rat \<Rightarrow> error + (heap \<times> nat)" where
  "allocateMemory h n =
     (if is_index n
      then Inr (h @ [\<lparr>bytes = replicate (nat \<lfloor>n\<rfloor>) 0, capacity = nat \<lfloor>n\<rfloor>\<rparr>], length h)
      else Inl AllocationFailure)"

text \<open>
  Modelled from the spec: \<open>Memory.slice(begin, end)\<close> of memory.ts, which is not among
  the sources. The spec gives a new, independent handle for the byte range
  \<open>[begin, end)\<close> of the handle: here the bytes of the handle at the positions of that
  range, in a fresh handle whose capacity is its size. Bounds that are not non-negative
  integers are a failure.
\<close>

definition Memory_slice :: "heap \<Rightarrow> nat \<Rightarrow> rat \<Rightarrow> rat \<Rightarrow> error + (heap \<times> nat)" where
  "Memory_slice h p begin end =
     (if \<not> p < length h then Inl NoSuchObject
      else if is_index begin \<and> is_index end
      then (let bs = drop (nat \<lfloor>begin\<rfloor>) (take (nat \<lfloor>end\<rfloor>) (bytes (h ! p)))
            in Inr (h @ [\<lparr>bytes = bs, capacity = length bs\<rparr>], length h))
      else Inl RangeError)"

text \<open>
  Modelled from the spec: the copy primitive \<open>cudaMemcpy(dst, src, byteLength)\<close> of the
  native addon, which is not among the sources. An operand is a host buffer (its bytes) or a
  device range: a handle and the byte offset of the view that names it. The copy reads
  \<open>byteLength\<close> bytes of the source and writes them over the first bytes of the
  destination; a range that leaves either operand, or a count that is not a non-negative
  integer, is a failure.
\<close>

datatype operand = Host "byte list" | Device nat rat

definition read_operand :: "heap \<Rightarrow> operand \<Rightarrow> nat \<Rightarrow> error + byte list" where
  "read_operand h x n =
     (case x of
        Host bs \<Rightarrow> if n \<le> length bs then Inr (take n bs) else Inl CopyFailure
      | Device p off \<Rightarrow>
          if \<not> p < length h then Inl NoSuchObject
          else if is_index off \<and> nat \<lfloor>off\<rfloor> + n \<le> length (bytes (h ! p))
          then Inr (take n (drop (nat \<lfloor>off\<rfloor>) (bytes (h ! p))))
          else Inl CopyFailure)"

definition overwrite :: "byte list \<Rightarrow> nat \<Rightarrow> byte list \<Rightarrow> byte list" where
  "overwrite bs k xs = take k bs @ xs @ drop (k + length xs) bs"

definition write_operand :: "heap \<Rightarrow> operand \<Rightarrow> byte list \<Rightarrow> error + (heap \<times> operand)" where
  "write_operand h x xs =
     (case x of
        Host bs \<Rightarrow>
          if length xs \<le> length bs then Inr (h, Host (overwrite bs 0 xs)) else Inl CopyFailure
      | Device p off \<Rightarrow>
          if \<not> p < length h then Inl NoSuchObject
          else if is_index off \<and> nat \<lfloor>off\<rfloor> + length xs \<le> length (bytes (h ! p))
          then Inr (h[p := (h ! p)\<lparr>bytes := overwrite (bytes (h ! p)) (nat \<lfloor>off\<rfloor>) xs\<rparr>], x)
          else Inl CopyFailure)"

definition cudaMemcpy :: "heap \<Rightarrow> operand \<Rightarrow> operand \<Rightarrow> rat \<Rightarrow> error + (heap \<times> operand)" where
  "cudaMemcpy h dst src n =
     (if \<not> is_index n then Inl CopyFailure
      else case read_operand h src (nat \<lfloor>n\<rfloor>) of
             Inl e \<Rightarrow> Inl e
           | Inr xs \<Rightarrow> write_operand h dst xs)"

subsection \<open>The clamping rule\<close>

text \<open>
  Modelled from the spec: \<open>clampSliceArgs(length, start?, end?)\<close> of util.ts, which is
  not among the sources. An omitted start is 0 and an omitted end is the length; a negative
  value \<open>x\<close> stands for \<open>length + x\<close>; both are clamped into \<open>[0, length]\<close>; and when
  the start is then beyond the end, the window is empty, start = end.
\<close>

definition resolve :: "rat \<Rightarrow> rat \<Rightarrow> rat" where
  "resolve len x = max 0 (min len (if x < 0 then len + x else x))"

definition clamp :: "rat \<Rightarrow> rat option \<Rightarrow> rat option \<Rightarrow> rat \<times> rat" where
  "clamp len lhs rhs =
     (let s = (case lhs of None \<Rightarrow> resolve len 0 | Some x \<Rightarrow> resolve len x);
          e = (case rhs of None \<Rightarrow> resolve len len | Some x \<Rightarrow> resolve len x)
      in if e < s then (e, e) else (s, e))"

subsection \<open>Views\<close>

text \<open>
  The own fields of a view object. \<open>ctor\<close> is the class of the view, that is, the
  \<open>TypedArray\<close> its prototype carries; \<open>buffer\<close> is the handle it references.
\<close>

record MemoryView =
  ctor :: TypedArray
  buffer :: nat
  byteOffset :: rat
  byteLength :: rat
  length_mv :: rat

text \<open>
  The shapes that \<open>asMemory\<close> tells apart, in the order of its tests. A host array buffer
  or typed array is given by the bytes it exposes; a host sequence by the bytes each of its
  values takes in a typed array of the view's class (the conversion of
  \<open>new TypedArray(source)\<close> is the engine's). An object with \<open>buffer\<close>, \<open>byteOffset\<close>
  and \<open>byteLength\<close> properties wraps a handle, possibly through further such objects.
  \<open>SrcOther\<close> is any other object; \<open>SrcNotObject\<close> is \<open>undefined\<close>, \<open>null\<close> or
  another primitive that no test accepts, on which the \<open>in\<close> operator of the last test
  raises a \<open>TypeError\<close>.
\<close>

datatype bufobj = Handle nat | Wrapper bufobj

fun unwrap :: "bufobj \<Rightarrow> nat" where
  "unwrap (Handle p) = p"
| "unwrap (Wrapper b) = unwrap b"

datatype source =
    SrcNumber rat
  | SrcMemoryView MemoryView
  | SrcMemory nat
  | SrcArrayBuffer "byte list"
  | SrcArrayBufferView "byte list"
  | SrcIterable "byte list list"
  | SrcArrayLike "byte list list"
  | SrcViewLike bufobj rat rat
  | SrcOther
  | SrcNotObject

definition upload :: "heap \<Rightarrow> byte list \<Rightarrow> error + (heap \<times> nat \<times> rat \<times> rat)" where
  "upload h b =
     (let len = of_nat (length b)
      in case allocateMemory h len of
           Inl e \<Rightarrow> Inl e
         | Inr (h1, buf) \<Rightarrow>
             (case cudaMemcpy h1 (Device buf 0) (Host b) len of
                Inl e \<Rightarrow> Inl e
              | Inr (h2, _) \<Rightarrow> Inr (h2, buf, len, 0)))"

text \<open>\<open>asMemory\<close> yields the store and the triple buffer, byteLength, byteOffset.\<close>

fun asMemory_parts :: "heap \<Rightarrow> source \<Rightarrow> TypedArray \<Rightarrow> error + (heap \<times> nat \<times> rat \<times> rat)" where
  "asMemory_parts h (SrcNumber n) T =
     (case allocateMemory h (n * BPE T) of
        Inl e \<Rightarrow> Inl e
      | Inr (h1, buf) \<Rightarrow> Inr (h1, buf, n * BPE T, 0))"
| "asMemory_parts h (SrcMemoryView src) T =
     (case Memory_slice h (buffer src) (byteOffset src) (byteLength src) of
        Inl e \<Rightarrow> Inl e
      | Inr (h1, buf) \<Rightarrow> Inr (h1, buf, byteLength src, 0))"
| "asMemory_parts h (SrcMemory p) T =
     (if p < length h then Inr (h, p, of_nat (length (bytes (h ! p))), 0)
      else Inl NoSuchObject)"
| "asMemory_parts h (SrcArrayBuffer b) T = upload h b"
| "asMemory_parts h (SrcArrayBufferView b) T = upload h b"
| "asMemory_parts h (SrcIterable vs) T = upload h (concat vs)"
| "asMemory_parts h (SrcArrayLike vs) T = upload h (concat vs)"
| "asMemory_parts h (SrcViewLike b len off) T = Inr (h, unwrap b, len, off)"
| "asMemory_parts h SrcOther T =
     (case allocateMemory h 0 of
        Inl e \<Rightarrow> Inl e
      | Inr (h1, buf) \<Rightarrow> Inr (h1, buf, 0, 0))"
| "asMemory_parts h SrcNotObject T = Inl TypeError"

definition asMemory :: "heap \<Rightarrow> source \<Rightarrow> TypedArray \<Rightarrow> error + (heap \<times> MemoryView)" where
  "asMemory h src T =
     (case asMemory_parts h src T of
        Inl e \<Rightarrow> Inl e
      | Inr (h1, buf, len, off) \<Rightarrow>
          Inr (h1, \<lparr>ctor = T, buffer = buf, byteOffset = off, byteLength = len,
                    length_mv = len / BPE T\<rparr>))"

text \<open>
  \<open>Math.max(+x, 0) || 0\<close>: unary plus first, which may raise; then \<open>NaN\<close> and every
  number below 0 give 0.
\<close>

definition unary_plus :: "jsvalue \<Rightarrow> error + jsnum" where
  "unary_plus x =
     (case x of
        Coerces n \<Rightarrow> Inr n
      | SymbolValue \<Rightarrow> Inl TypeError
      | BigIntValue k \<Rightarrow> Inl TypeError)"

definition Math_max0 :: "jsnum \<Rightarrow> jsnum" where
  "Math_max0 x = (case x of NaN \<Rightarrow> NaN | Num r \<Rightarrow> Num (max r 0))"

definition or0 :: "jsnum \<Rightarrow> rat" where
  "or0 x = (case x of NaN \<Rightarrow> 0 | Num r \<Rightarrow> if r = 0 then 0 else r)"

definition coerce0 :: "jsvalue \<Rightarrow> error + rat" where
  "coerce0 x = (case unary_plus x of Inl e \<Rightarrow> Inl e | Inr n \<Rightarrow> Inr (or0 (Math_max0 n)))"

text \<open>
  The constructor, by the number of its arguments. Without an argument the source is
  \<open>undefined\<close>. With three, the length is coerced before the offset.
\<close>

datatype arguments =
    Args0
  | Args1 source
  | Args2 source jsvalue
  | Args3 source jsvalue jsvalue

fun MemoryView_new :: "TypedArray \<Rightarrow> heap \<Rightarrow> arguments \<Rightarrow> error + (heap \<times> MemoryView)" where
  "MemoryView_new T h Args0 = asMemory h SrcNotObject T"
| "MemoryView_new T h (Args1 src) = asMemory h src T"
| "MemoryView_new T h (Args2 src off) =
     (case asMemory h src T of
        Inl e \<Rightarrow> Inl e
      | Inr (h1, this) \<Rightarrow>
          (case coerce0 off of
             Inl e \<Rightarrow> Inl e
           | Inr b \<Rightarrow> Inr (h1, this\<lparr>byteOffset := b\<rparr>)))"
| "MemoryView_new T h (Args3 src off len) =
     (case asMemory h src T of
        Inl e \<Rightarrow> Inl e
      | Inr (h1, this) \<Rightarrow>
          (case coerce0 len of
             Inl e \<Rightarrow> Inl e
           | Inr n \<Rightarrow>
               (case coerce0 off of
                  Inl e \<Rightarrow> Inl e
                | Inr b \<Rightarrow>
                    Inr (h1, this\<lparr>length_mv := n, byteLength := n * BPE T,
                                    byteOffset := b\<rparr>))))"

subsection \<open>Sub-views and slices\<close>

text \<open>
  \<open>this[Symbol.species]\<close> is the class of the view itself. The buffer of a view is a memory
  handle, so \<open>asMemory\<close> takes it in its \<open>isMemoryLike\<close> branch.
\<close>

definition subarray :: "heap \<Rightarrow> MemoryView \<Rightarrow> rat option \<Rightarrow> rat option \<Rightarrow> error + (heap \<times> MemoryView)" where
  "subarray h this begin end =
     (case clamp (length_mv this) begin end of
        (b, e) \<Rightarrow>
          MemoryView_new (ctor this) h
            (Args3 (SrcMemory (buffer this))
                   (Coerces (Num (byteOffset this + b * BPE (ctor this))))
                   (Coerces (Num (e - b)))))"

definition slice :: "heap \<Rightarrow> MemoryView \<Rightarrow> rat option \<Rightarrow> rat option \<Rightarrow> error + (heap \<times> MemoryView)" where
  "slice h this start end =
     (case clamp (length_mv this) start end of
        (s, e) \<Rightarrow>
          (case Memory_slice h (buffer this)
                  (byteOffset this + s * BPE (ctor this))
                  (byteOffset this + e * BPE (ctor this)) of
             Inl err \<Rightarrow> Inl err
           | Inr (h1, p) \<Rightarrow> MemoryView_new (ctor this) h1 (Args1 (SrcMemory p))))"

subsection \<open>Bulk copies\<close>

text \<open>
  \<open>asMemoryView\<close> returns a view as it is and builds a view of the given class from
  anything else. Its \<open>switch\<close> over the eleven class names is total on \<open>TypedArray\<close>.
\<close>

definition asMemoryView :: "heap \<Rightarrow> source \<Rightarrow> TypedArray \<Rightarrow> error + (heap \<times> MemoryView)" where
  "asMemoryView h src T =
     (case src of
        SrcMemoryView v \<Rightarrow> Inr (h, v)
      | _ \<Rightarrow> MemoryView_new T h (Args1 src))"

definition device :: "MemoryView \<Rightarrow> operand" where
  "device v = Device (buffer v) (byteOffset v)"

text \<open>
  \<open>set_call\<close> is \<open>set\<close> up to its last line: the store after the source has been made a
  view, and the three arguments of the one \<open>cudaMemcpy\<close> call.
\<close>

definition set_call ::
  "heap \<Rightarrow> MemoryView \<Rightarrow> source \<Rightarrow> rat option \<Rightarrow> error + (heap \<times> MemoryView \<times> MemoryView \<times> rat)" where
  "set_call h this array start =
     (case clamp (length_mv this) start None of
        (offset, sz) \<Rightarrow>
          (case asMemoryView h array (ctor this) of
             Inl e \<Rightarrow> Inl e
           | Inr (h1, src) \<Rightarrow>
               (let sz' = min (sz * BPE (ctor this)) (byteLength src)
                in case subarray h1 this (Some offset) None of
                     Inl e \<Rightarrow> Inl e
                   | Inr (h2, dst) \<Rightarrow> Inr (h2, dst, src, sz'))))"

definition set_mv :: "heap \<Rightarrow> MemoryView \<Rightarrow> source \<Rightarrow> rat option \<Rightarrow> error + heap" where
  "set_mv h this array start =
     (case set_call h this array start of
        Inl e \<Rightarrow> Inl e
      | Inr (h1, dst, src, sz) \<Rightarrow>
          (case cudaMemcpy h1 (device dst) (device src) sz of
             Inl e \<Rightarrow> Inl e
           | Inr (h2, _) \<Rightarrow> Inr h2))"

definition copyFrom :: "heap \<Rightarrow> MemoryView \<Rightarrow> source \<Rightarrow> rat option \<Rightarrow> error + heap" where
  "copyFrom h this src start = set_mv h this src start"

text \<open>
  An element value is given by the bytes it takes in a typed array of the class; what is
  not of the element size is cut or padded to it, as the engine's conversion writes exactly
  one element. \<open>ToIndex\<close> is the engine's coercion of a typed-array length.
\<close>

definition to_element :: "TypedArray \<Rightarrow> byte list \<Rightarrow> byte list" where
  "to_element T v = take (BYTES_PER_ELEMENT T) (v @ replicate (BYTES_PER_ELEMENT T) 0)"

definition ToIndex :: "rat \<Rightarrow> error + nat" where
  "ToIndex x = (if x \<le> -1 then Inl RangeError else Inr (nat \<lfloor>x\<rfloor>))"

definition fill :: "heap \<Rightarrow> MemoryView \<Rightarrow> byte list \<Rightarrow> rat option \<Rightarrow> rat option \<Rightarrow> error + heap" where
  "fill h this val start end =
     (case clamp (length_mv this) start end of
        (s, e) \<Rightarrow>
          (case ToIndex (e - s) of
             Inl err \<Rightarrow> Inl err
           | Inr n \<Rightarrow>
               set_mv h this
                 (SrcArrayBufferView (concat (replicate n (to_element (ctor this) val))))
                 (Some s)))"

datatype target =
    TgtMemoryView MemoryView
  | TgtArrayBuffer "byte list"
  | TgtArrayBufferView "byte list"
  | TgtOther

fun host_bytes :: "operand \<Rightarrow> byte list" where
  "host_bytes (Host bs) = bs"
| "host_bytes (Device p off) = []"

fun copyInto :: "heap \<Rightarrow> MemoryView \<Rightarrow> target \<Rightarrow> rat option \<Rightarrow> error + (heap \<times> target)" where
  "copyInto h this (TgtMemoryView t) start =
     (case set_mv h t (SrcMemoryView this) start of
        Inl e \<Rightarrow> Inl e
      | Inr h1 \<Rightarrow> Inr (h1, TgtMemoryView t))"
| "copyInto h this (TgtArrayBuffer b) start =
     (case cudaMemcpy h (Host b) (device this) (min (byteLength this) (of_nat (length b))) of
        Inl e \<Rightarrow> Inl e
      | Inr (h1, b1) \<Rightarrow> Inr (h1, TgtArrayBuffer (host_bytes b1)))"
| "copyInto h this (TgtArrayBufferView b) start =
     (case clamp (length_mv this) start None of
        (offset, sz) \<Rightarrow>
          (let sz' = min (sz * BPE (ctor this)) (of_nat (length b))
           in case subarray h this (Some offset) None of
                Inl e \<Rightarrow> Inl e
              | Inr (h1, sub) \<Rightarrow>
                  (case cudaMemcpy h1 (Host b) (device sub) sz' of
                     Inl e \<Rightarrow> Inl e
                   | Inr (h2, b1) \<Rightarrow> Inr (h2, TgtArrayBufferView (host_bytes b1)))))"
| "copyInto h this TgtOther start = Inr (h, TgtOther)"

text \<open>\<open>toArray\<close> returns the bytes of the host typed array it has filled.\<close>

definition toArray :: "heap \<Rightarrow> MemoryView \<Rightarrow> error + byte list" where
  "toArray h this =
     (case ToIndex (length_mv this) of
        Inl e \<Rightarrow> Inl e
      | Inr n \<Rightarrow>
          (case copyInto h this
                  (TgtArrayBufferView (replicate (n * BYTES_PER_ELEMENT (ctor this)) 0)) None of
             Inl e \<Rightarrow> Inl e
           | Inr (h1, TgtArrayBufferView b) \<Rightarrow> Inr b
           | Inr (h1, _) \<Rightarrow> Inr []))"

subsection \<open>Indexed element access\<close>

text \<open>
  The handlers of the proxy under \<open>MemoryView.prototype\<close>, for a key that is an integer.
  \<open>E\<close> is the staging buffer of eight bytes that the classes share; \<open>E[0]\<close> is its first
  element. A failing copy leaves the handler before it restores \<open>byteOffset\<close>, so the
  handlers return the receiver as they leave it. Outside the range, the \<open>set\<close> handler ends
  in \<open>Reflect.set\<close>, which stores the value as an ordinary property of the receiver:
  \<open>props\<close> holds these properties. They are no part of the device memory, and the handlers
  never read them: the engine finds such a property on the object itself, before the
  prototype chain reaches the proxy.
\<close>

datatype jsval = Undefined | Element "byte list"

type_synonym props = "(int \<times> byte list) list"

definition proxy_get ::
  "heap \<Rightarrow> byte list \<Rightarrow> MemoryView \<Rightarrow> int \<Rightarrow> (error + jsval) \<times> MemoryView \<times> byte list" where
  "proxy_get h E receiver i =
     (if i > -1 \<and> of_int i < length_mv receiver
      then (let off = byteOffset receiver;
                T = ctor receiver;
                r1 = receiver\<lparr>byteOffset := off + of_int i * BPE T\<rparr>
            in case cudaMemcpy h (Host E) (device r1) (BPE T) of
                 Inl e \<Rightarrow> (Inl e, r1, E)
               | Inr (_, E1) \<Rightarrow>
                   (Inr (Element (take (BYTES_PER_ELEMENT T) (host_bytes E1))),
                    r1\<lparr>byteOffset := off\<rparr>, host_bytes E1))
      else (Inr Undefined, receiver, E))"

definition Reflect_set :: "props \<Rightarrow> int \<Rightarrow> byte list \<Rightarrow> bool \<times> props" where
  "Reflect_set ps i val = (True, (i, val) # filter (\<lambda>kv. fst kv \<noteq> i) ps)"

definition proxy_set ::
  "heap \<Rightarrow> byte list \<Rightarrow> props \<Rightarrow> MemoryView \<Rightarrow> int \<Rightarrow> byte list
     \<Rightarrow> (error + bool) \<times> MemoryView \<times> byte list \<times> props \<times> heap" where
  "proxy_set h E ps receiver i val =
     (if i > -1 \<and> of_int i < length_mv receiver
      then (let off = byteOffset receiver;
                T = ctor receiver;
                r1 = receiver\<lparr>byteOffset := off + of_int i * BPE T\<rparr>;
                E1 = overwrite E 0 (to_element T val)
            in case cudaMemcpy h (device r1) (Host E1) (BPE T) of
                 Inl e \<Rightarrow> (Inl e, r1, E1, ps, h)
               | Inr (h1, _) \<Rightarrow> (Inr True, r1\<lparr>byteOffset := off\<rparr>, E1, ps, h1))
      else (case Reflect_set ps i val of (ok, ps1) \<Rightarrow> (Inr ok, receiver, E, ps1, h)))"

text \<open>
  The indexed read \<open>v[i]\<close> and write \<open>v[i] = val\<close> on the view object, as the engine
  resolves them: an own property of the object under the key is read or assigned where it
  is, and only a key that the object does not hold goes down the prototype chain to the
  handlers of the proxy. A value read from an own property is the value that was stored.
\<close>

definition indexed_read ::
  "heap \<Rightarrow> byte list \<Rightarrow> props \<Rightarrow> MemoryView \<Rightarrow> int \<Rightarrow> (error + jsval) \<times> MemoryView \<times> byte list" where
  "indexed_read h E ps receiver i =
     (case map_of ps i of
        Some val \<Rightarrow> (Inr (Element val), receiver, E)
      | None \<Rightarrow> proxy_get h E receiver i)"

definition indexed_write ::
  "heap \<Rightarrow> byte list \<Rightarrow> props \<Rightarrow> MemoryView \<Rightarrow> int \<Rightarrow> byte list
     \<Rightarrow> (error + bool) \<times> MemoryView \<times> byte list \<times> props \<times> heap" where
  "indexed_write h E ps receiver i val =
     (case map_of ps i of
        Some old \<Rightarrow> (Inr True, receiver, E, (i, val) # filter (\<lambda>kv. fst kv \<noteq> i) ps, h)
      | None \<Rightarrow> proxy_set h E ps receiver i val)"

subsection \<open>Properties of views, and the host side of the comparisons\<close>

text \<open>
  A view is valid in a store when its handle exists, its offset and length are
  non-negative integers, its byte length is its length times the element size, and its byte
  range lies within the bytes of the handle.
\<close>

definition valid_view :: "heap \<Rightarrow> MemoryView \<Rightarrow> bool" where
  "valid_view h v \<longleftrightarrow>
     buffer v < length h \<and> is_index (byteOffset v) \<and> is_index (length_mv v)
     \<and> byteLength v = length_mv v * BPE (ctor v)
     \<and> byteOffset v + byteLength v \<le> of_nat (length (bytes (h ! buffer v)))"

text \<open>
  The elements of a host typed array of class \<open>T\<close> whose buffer holds the bytes \<open>b\<close>.
\<close>

definition elements :: "TypedArray \<Rightarrow> byte list \<Rightarrow> byte list list" where
  "elements T b =
     map (\<lambda>i. take (BYTES_PER_ELEMENT T) (drop (i * BYTES_PER_ELEMENT T) b))
       [0 ..< length b div BYTES_PER_ELEMENT T]"



text \<open>
  The capacity invariant of a view, and with it what \<open>subarray\<close> needs to hand it on:
  offset and length not below 0, and the byte length the length times the element size.
  \<open>extends h h1\<close>: the store \<open>h1\<close> has every handle of \<open>h\<close>, with its capacity.
\<close>

definition within_capacity :: "heap \<Rightarrow> MemoryView \<Rightarrow> bool" where
  "within_capacity h v \<longleftrightarrow>
     buffer v < length h \<and> byteOffset v + byteLength v \<le> of_nat (capacity (h ! buffer v))"

definition well_formed :: "heap \<Rightarrow> MemoryView \<Rightarrow> bool" where
  "well_formed h v \<longleftrightarrow>
     within_capacity h v \<and> 0 \<le> byteOffset v \<and> 0 \<le> length_mv v
     \<and> byteLength v = length_mv v * BPE (ctor v)"

definition extends :: "heap \<Rightarrow> heap \<Rightarrow> bool" where
  "extends h h1 \<longleftrightarrow>
     length h \<le> length h1 \<and> (\<forall>p < length h. capacity (h1 ! p) = capacity (h ! p))"

section \<open>Auxiliary facts\<close>

lemmas eval_defs =
  asMemory_def upload_def allocateMemory_def Memory_slice_def is_index_def cudaMemcpy_def
  read_operand_def write_operand_def overwrite_def clamp_def resolve_def asMemoryView_def
  subarray_def slice_def set_call_def set_mv_def copyFrom_def fill_def toArray_def
  to_element_def ToIndex_def proxy_get_def proxy_set_def Reflect_set_def or0_def
  Math_max0_def unary_plus_def coerce0_def indexed_read_def indexed_write_def device_def
  Let_def

lemma BYTES_PER_ELEMENT_pos: "0 < BYTES_PER_ELEMENT T"
  by (cases T) simp_all

lemma BYTES_PER_ELEMENT_le8: "BYTES_PER_ELEMENT T \<le> 8"
  by (cases T) simp_all

lemma is_index_of_nat [simp]: "is_index (of_nat n)"
  by (simp add: is_index_def)

lemma floor_of_nat_rat [simp]: "nat \<lfloor>(of_nat n :: rat)\<rfloor> = n"
  by simp

lemma is_indexE:
  assumes "is_index r"
  obtains n :: nat where "r = of_nat n"
proof -
  from assms have "0 \<le> r" and r: "r = of_int \<lfloor>r\<rfloor>" by (simp_all add: is_index_def)
  then have "0 \<le> \<lfloor>r\<rfloor>" by simp
  then have "of_int \<lfloor>r\<rfloor> = (of_nat (nat \<lfloor>r\<rfloor>) :: rat)" by simp
  with r have "r = of_nat (nat \<lfloor>r\<rfloor>)" by simp
  then show thesis by (rule that)
qed

lemma cudaMemcpy_to_host:
  assumes "p < length h" "off + n \<le> length (bytes (h ! p))" "n \<le> length b"
  shows "cudaMemcpy h (Host b) (Device p (of_nat off)) (of_nat n)
           = Inr (h, Host (take n (drop off (bytes (h ! p))) @ drop n b))"
  using assms by (simp add: cudaMemcpy_def read_operand_def write_operand_def overwrite_def)

lemma cudaMemcpy_to_device:
  assumes "p < length h" "off + n \<le> length (bytes (h ! p))" "n \<le> length b"
  shows "cudaMemcpy h (Device p (of_nat off)) (Host b) (of_nat n)
           = Inr (h[p := (h ! p)\<lparr>bytes := take off (bytes (h ! p)) @ take n b
                                           @ drop (off + n) (bytes (h ! p))\<rparr>],
                  Device p (of_nat off))"
  using assms by (simp add: cudaMemcpy_def read_operand_def write_operand_def overwrite_def)

lemma valid_viewE:
  assumes "valid_view h v"
  obtains off len :: nat where
    "byteOffset v = of_nat off" "length_mv v = of_nat len"
    "byteLength v = of_nat (len * BYTES_PER_ELEMENT (ctor v))"
    "buffer v < length h"
    "off + len * BYTES_PER_ELEMENT (ctor v) \<le> length (bytes (h ! buffer v))"
proof -
  from assms have a: "is_index (byteOffset v)" and b: "is_index (length_mv v)"
    and p: "buffer v < length h"
    and bl: "byteLength v = length_mv v * BPE (ctor v)"
    and le: "byteOffset v + byteLength v \<le> of_nat (length (bytes (h ! buffer v)))"
    by (simp_all add: valid_view_def)
  from a obtain off :: nat where off: "byteOffset v = of_nat off" by (rule is_indexE)
  from b obtain len :: nat where len: "length_mv v = of_nat len" by (rule is_indexE)
  have bl': "byteLength v = of_nat (len * BYTES_PER_ELEMENT (ctor v))"
    by (simp add: bl len)
  from le have "(of_nat (off + len * BYTES_PER_ELEMENT (ctor v)) :: rat)
                  \<le> of_nat (length (bytes (h ! buffer v)))"
    by (simp add: off bl len)
  then have "off + len * BYTES_PER_ELEMENT (ctor v) \<le> length (bytes (h ! buffer v))"
    by (simp only: of_nat_le_iff)
  with off len bl' p show thesis by (rule that)
qed

lemma length_to_element [simp]: "length (to_element T val) = BYTES_PER_ELEMENT T"
  by (simp add: to_element_def)


lemma element_range:
  fixes j len k off :: nat
  assumes "j < len" "off + len * k \<le> m"
  shows "off + j * k + k \<le> m"
proof -
  from assms(1) have "Suc j \<le> len" by simp
  then have "Suc j * k \<le> len * k" by (rule mult_le_mono1)
  with assms(2) show ?thesis by simp
qed

lemma proxy_get_valid:
  assumes v: "byteOffset v = of_nat off" "buffer v < length h"
    and j: "j < len" "length_mv v = of_nat len"
    and le: "off + len * BYTES_PER_ELEMENT (ctor v) \<le> length (bytes (h ! buffer v))"
    and E: "length E = 8"
  shows "proxy_get h E v (int j) =
           (Inr (Element (take (BYTES_PER_ELEMENT (ctor v))
                            (drop (off + j * BYTES_PER_ELEMENT (ctor v)) (bytes (h ! buffer v))))),
            v,
            take (BYTES_PER_ELEMENT (ctor v))
              (drop (off + j * BYTES_PER_ELEMENT (ctor v)) (bytes (h ! buffer v)))
            @ drop (BYTES_PER_ELEMENT (ctor v)) E)"
proof -
  let ?k = "BYTES_PER_ELEMENT (ctor v)"
  let ?B = "bytes (h ! buffer v)"
  have r: "off + j * ?k + ?k \<le> length ?B" using j(1) le by (rule element_range)
  have kE: "?k \<le> length E" using BYTES_PER_ELEMENT_le8 [of "ctor v"] E by simp
  have adv: "(of_nat off :: rat) + of_nat j * of_nat ?k = of_nat (off + j * ?k)"
    by simp
  have cp: "cudaMemcpy h (Host E) (Device (buffer v) (of_nat (off + j * ?k))) (of_nat ?k)
              = Inr (h, Host (take ?k (drop (off + j * ?k) ?B) @ drop ?k E))"
    using v(2) r kE by (rule cudaMemcpy_to_host)
  have len_take: "length (take ?k (drop (off + j * ?k) ?B)) = ?k"
    using r by simp
  show ?thesis
    unfolding proxy_get_def Let_def device_def
    using j cp len_take
    by (simp add: v(1) adv del: of_nat_add of_nat_mult)
qed

lemma proxy_set_valid:
  assumes v: "byteOffset v = of_nat off" "buffer v < length h"
    and j: "j < len" "length_mv v = of_nat len"
    and le: "off + len * BYTES_PER_ELEMENT (ctor v) \<le> length (bytes (h ! buffer v))"
    and E: "length E = 8"
  shows "proxy_set h E ps v (int j) val =
           (Inr True, v, to_element (ctor v) val @ drop (BYTES_PER_ELEMENT (ctor v)) E, ps,
            h[buffer v := (h ! buffer v)\<lparr>bytes :=
                 take (off + j * BYTES_PER_ELEMENT (ctor v)) (bytes (h ! buffer v))
                 @ to_element (ctor v) val
                 @ drop (off + j * BYTES_PER_ELEMENT (ctor v) + BYTES_PER_ELEMENT (ctor v))
                     (bytes (h ! buffer v))\<rparr>])"
proof -
  let ?k = "BYTES_PER_ELEMENT (ctor v)"
  let ?B = "bytes (h ! buffer v)"
  let ?E1 = "to_element (ctor v) val @ drop ?k E"
  have r: "off + j * ?k + ?k \<le> length ?B" using j(1) le by (rule element_range)
  have kE: "?k \<le> length ?E1" by simp
  have adv: "(of_nat off :: rat) + of_nat j * of_nat ?k = of_nat (off + j * ?k)"
    by simp
  have E1: "overwrite E 0 (to_element (ctor v) val) = ?E1"
    by (simp add: overwrite_def)
  have cp: "cudaMemcpy h (Device (buffer v) (of_nat (off + j * ?k))) (Host ?E1) (of_nat ?k)
              = Inr (h[buffer v := (h ! buffer v)\<lparr>bytes := take (off + j * ?k) ?B @ take ?k ?E1
                                           @ drop (off + j * ?k + ?k) ?B\<rparr>],
                     Device (buffer v) (of_nat (off + j * ?k)))"
    using v(2) r kE by (rule cudaMemcpy_to_device)
  show ?thesis
    unfolding proxy_set_def Let_def device_def
    using j cp
    by (simp add: v(1) adv E1 del: of_nat_add of_nat_mult)
qed


lemma or0_nonneg: "0 \<le> r \<Longrightarrow> or0 (Math_max0 (Num r)) = r"
  by (simp add: or0_def Math_max0_def max_def)

lemma clamp_bounds:
  assumes "0 \<le> len" "clamp len lhs rhs = (b, e)"
  shows "0 \<le> b" "b \<le> e" "e \<le> len"
  using assms
  by (auto simp: clamp_def Let_def resolve_def split: option.splits if_splits)


lemma subarray_eq:
  assumes "buffer v < length h" "0 \<le> byteOffset v" "0 \<le> length_mv v"
    and "clamp (length_mv v) begin end = (b, e)"
  shows "subarray h v begin end =
           Inr (h, \<lparr>ctor = ctor v, buffer = buffer v,
                    byteOffset = byteOffset v + b * BPE (ctor v),
                    byteLength = (e - b) * BPE (ctor v), length_mv = e - b\<rparr>)"
proof -
  from assms(3,4) have be: "0 \<le> b" "b \<le> e" by (rule clamp_bounds)+
  then have "0 \<le> byteOffset v + b * BPE (ctor v)" "0 \<le> e - b"
    using assms(2) by simp_all
  then show ?thesis
    using assms(1,4)
    by (simp add: subarray_def asMemory_def coerce0_def unary_plus_def or0_nonneg Let_def)
qed


lemma upload_parts: "upload h b = Inr (h1, p, len, off) \<Longrightarrow> off = 0"
  by (auto simp: upload_def Let_def split: sum.splits)

lemma asMemory_parts_offset:
  "asMemory_parts h src T = Inr (h1, p, len, off) \<Longrightarrow>
     (\<forall>b l k. src \<noteq> SrcViewLike b l k) \<Longrightarrow> off = 0"
  by (cases src) (auto split: sum.splits if_splits dest: upload_parts)

lemma upload_eq:
  "upload h b = Inr (h @ [\<lparr>bytes = b, capacity = length b\<rparr>], length h, of_nat (length b), 0)"
proof -
  let ?h1 = "h @ [\<lparr>bytes = replicate (length b) 0, capacity = length b\<rparr>]"
  have al: "allocateMemory h (of_nat (length b)) = Inr (?h1, length h)"
    by (simp add: allocateMemory_def)
  have cp: "cudaMemcpy ?h1 (Device (length h) (of_nat 0)) (Host b) (of_nat (length b))
              = Inr (?h1[length h := (?h1 ! length h)\<lparr>bytes :=
                        take 0 (bytes (?h1 ! length h)) @ take (length b) b
                        @ drop (0 + length b) (bytes (?h1 ! length h))\<rparr>],
                     Device (length h) (of_nat 0))"
    by (rule cudaMemcpy_to_device) simp_all
  show ?thesis
    using al cp by (simp add: upload_def Let_def)
qed

lemma length_concat_elements:
  "\<forall>a \<in> set A. length a = k \<Longrightarrow> length (concat A) = length A * k"
  by (induction A) simp_all

lemma chunks_concat:
  assumes "\<forall>a \<in> set A. length a = k"
  shows "map (\<lambda>i. take k (drop (i * k) (concat A))) [0 ..< length A] = A"
  using assms
proof (induction A)
  case Nil
  then show ?case by simp
next
  case (Cons a A)
  then have a: "length a = k" and A: "\<forall>x \<in> set A. length x = k" by simp_all
  have "[0 ..< length (a # A)] = 0 # map Suc [0 ..< length A]"
    by (simp add: upt_conv_Cons map_Suc_upt del: upt_Suc)
  then have "map (\<lambda>i. take k (drop (i * k) (concat (a # A)))) [0 ..< length (a # A)]
           = take k (a @ concat A)
             # map (\<lambda>i. take k (drop (Suc i * k) (a @ concat A))) [0 ..< length A]"
    by (simp add: comp_def)
  also have "take k (a @ concat A) = a" using a by simp
  also have "map (\<lambda>i. take k (drop (Suc i * k) (a @ concat A))) [0 ..< length A]
           = map (\<lambda>i. take k (drop (i * k) (concat A))) [0 ..< length A]"
    using a by simp
  also have "\<dots> = A" using Cons.IH [OF A] .
  finally show ?case .
qed

lemma elements_concat:
  assumes "\<forall>a \<in> set A. length a = BYTES_PER_ELEMENT T"
  shows "elements T (concat A) = A"
proof -
  have "length (concat A) div BYTES_PER_ELEMENT T = length A"
    using length_concat_elements [OF assms] BYTES_PER_ELEMENT_pos [of T] by simp
  then show ?thesis
    using chunks_concat [OF assms] by (simp add: elements_def)
qed

lemma clamp_whole: "clamp (of_nat len) None None = (0, of_nat len)"
  by (simp add: clamp_def resolve_def)

lemma toArray_valid:
  assumes v: "byteOffset v = of_nat off" "length_mv v = of_nat len" "buffer v < length h"
    and le: "off + len * BYTES_PER_ELEMENT (ctor v) \<le> length (bytes (h ! buffer v))"
  shows "toArray h v = Inr (take (len * BYTES_PER_ELEMENT (ctor v))
                              (drop off (bytes (h ! buffer v))))"
proof -
  let ?k = "BYTES_PER_ELEMENT (ctor v)"
  let ?B = "bytes (h ! buffer v)"
  let ?z = "replicate (len * ?k) (0 :: byte)"
  have ti: "ToIndex (length_mv v) = Inr len"
    by (simp add: ToIndex_def v(2))
  have cl: "clamp (length_mv v) (Some 0) None = (0, of_nat len)"
    by (simp add: v(2) clamp_def resolve_def)
  have sub: "subarray h v (Some 0) None =
           Inr (h, \<lparr>ctor = ctor v, buffer = buffer v,
                    byteOffset = byteOffset v + 0 * BPE (ctor v),
                    byteLength = (of_nat len - 0) * BPE (ctor v), length_mv = of_nat len - 0\<rparr>)"
    by (rule subarray_eq [OF v(3) _ _ cl]) (simp_all add: v)
  have cp: "cudaMemcpy h (Host ?z) (Device (buffer v) (of_nat off)) (of_nat (len * ?k))
              = Inr (h, Host (take (len * ?k) (drop off ?B) @ drop (len * ?k) ?z))"
    using v(3) le by (intro cudaMemcpy_to_host) simp_all
  have sz: "min (of_nat len * BPE (ctor v)) (of_nat (length ?z)) = (of_nat (len * ?k) :: rat)"
    by simp
  have ci: "copyInto h v (TgtArrayBufferView ?z) None
              = Inr (h, TgtArrayBufferView (take (len * ?k) (drop off ?B)))"
    using cp
    by (simp add: clamp_whole v(1,2) sub [simplified v] sz device_def Let_def
             del: of_nat_mult length_replicate)
  show ?thesis
    unfolding toArray_def ti using ci by simp
qed










lemma extends_refl [simp]: "extends h h"
  by (simp add: extends_def)

lemma extends_trans: "extends h h1 \<Longrightarrow> extends h1 h2 \<Longrightarrow> extends h h2"
  by (auto simp: extends_def)

lemma extends_append [simp]: "extends h (h @ ms)"
  by (simp add: extends_def nth_append)

lemma well_formed_extends: "well_formed h v \<Longrightarrow> extends h h1 \<Longrightarrow> well_formed h1 v"
  by (auto simp: well_formed_def within_capacity_def extends_def)

lemma allocateMemory_extends: "allocateMemory h n = Inr (h1, p) \<Longrightarrow> extends h h1"
  by (auto simp: allocateMemory_def split: if_splits)

lemma Memory_slice_extends: "Memory_slice h q b e = Inr (h1, p) \<Longrightarrow> extends h h1"
  by (auto simp: Memory_slice_def Let_def split: if_splits)

lemma write_operand_extends: "write_operand h x xs = Inr (h1, y) \<Longrightarrow> extends h h1"
  by (auto simp: write_operand_def extends_def nth_list_update split: operand.splits if_splits)

lemma cudaMemcpy_extends: "cudaMemcpy h dst src n = Inr (h1, y) \<Longrightarrow> extends h h1"
  by (auto simp: cudaMemcpy_def split: if_splits sum.splits dest: write_operand_extends)

lemma upload_extends: "upload h b = Inr (h1, r) \<Longrightarrow> extends h h1"
  by (simp add: upload_eq) auto

lemma asMemory_parts_extends: "asMemory_parts h src T = Inr (h1, r) \<Longrightarrow> extends h h1"
  by (cases src)
     (auto split: sum.splits if_splits
           dest: allocateMemory_extends Memory_slice_extends upload_extends)

lemma asMemory_extends: "asMemory h src T = Inr (h1, v) \<Longrightarrow> extends h h1"
  by (auto simp: asMemory_def split: sum.splits prod.splits dest: asMemory_parts_extends)

lemma MemoryView_new_extends: "MemoryView_new T h args = Inr (h1, v) \<Longrightarrow> extends h h1"
  by (cases args) (auto simp: Let_def split: sum.splits dest: asMemory_extends)

lemma subarray_extends: "subarray h v b e = Inr (h1, w) \<Longrightarrow> extends h h1"
  by (auto simp: subarray_def simp del: MemoryView_new.simps split: prod.splits
           dest: MemoryView_new_extends)

lemma asMemoryView_extends: "asMemoryView h src T = Inr (h1, v) \<Longrightarrow> extends h h1"
  by (auto simp: asMemoryView_def simp del: MemoryView_new.simps split: source.splits
           dest: MemoryView_new_extends)

lemma set_call_extends: "set_call h v src start = Inr (h1, r) \<Longrightarrow> extends h h1"
  by (auto simp: set_call_def Let_def split: prod.splits sum.splits
           dest: asMemoryView_extends subarray_extends intro: extends_trans)

lemma set_mv_extends: "set_mv h v src start = Inr h1 \<Longrightarrow> extends h h1"
  by (auto simp: set_mv_def split: prod.splits sum.splits
           dest: set_call_extends cudaMemcpy_extends intro: extends_trans)

lemma fill_extends: "fill h v val start end = Inr h1 \<Longrightarrow> extends h h1"
  by (auto simp: fill_def split: prod.splits sum.splits dest: set_mv_extends)

lemma copyInto_extends: "copyInto h v tgt start = Inr (h1, t1) \<Longrightarrow> extends h h1"
  by (cases tgt)
     (auto simp: Let_def split: prod.splits sum.splits
           dest: set_mv_extends cudaMemcpy_extends subarray_extends intro: extends_trans)

lemma proxy_set_extends:
  "proxy_set h E ps v i val = (r, v1, E1, ps1, h1) \<Longrightarrow> extends h h1"
  by (auto simp: proxy_set_def Let_def Reflect_set_def split: if_splits sum.splits
           dest: cudaMemcpy_extends)

lemma proxy_get_completes: "proxy_get h E v i = (Inr x, v1, E1) \<Longrightarrow> v1 = v"
  by (auto simp: proxy_get_def Let_def split: if_splits sum.splits)

lemma proxy_set_completes: "proxy_set h E ps v i val = (Inr ok, v1, E1, ps1, h1) \<Longrightarrow> v1 = v"
  by (auto simp: proxy_set_def Let_def Reflect_set_def split: if_splits sum.splits)

lemma is_index_0 [simp]: "is_index 0"
  by (simp add: is_index_def)

lemma or0_ge0: "0 \<le> or0 (Math_max0 x)"
  by (cases x) (simp_all add: or0_def Math_max0_def)

lemma is_index_nat: "is_index r \<Longrightarrow> of_nat (nat \<lfloor>r\<rfloor>) = r"
  by (erule is_indexE) simp

lemma ctor_fresh_well_formed:
  assumes "MemoryView_new T h (Args1 src) = Inr (h1, w)"
    and "src = SrcNumber n \<or> src = SrcArrayBuffer b \<or> src = SrcArrayBufferView b
         \<or> src = SrcIterable A \<or> src = SrcArrayLike A \<or> src = SrcOther"
  shows "well_formed h1 w"
proof -
  have knz: "BPE T \<noteq> 0" using BYTES_PER_ELEMENT_pos [of T] by simp
  have kpos: "0 < BPE T" using BYTES_PER_ELEMENT_pos [of T] by simp
  have uploaded: "well_formed h1 w" if "asMemory_parts h src T = upload h bs" for bs
    using assms(1) that knz
    by (auto simp: asMemory_def upload_eq well_formed_def within_capacity_def)
  from assms(2) consider (num) "src = SrcNumber n" | (other) "src = SrcOther"
    | (up) bs where "asMemory_parts h src T = upload h bs"
    by auto
  then show ?thesis
  proof cases
    case num
    with assms(1) have ix: "is_index (n * BPE T)"
      and h1: "h1 = h @ [\<lparr>bytes = replicate (nat \<lfloor>n * BPE T\<rfloor>) 0,
                           capacity = nat \<lfloor>n * BPE T\<rfloor>\<rparr>]"
      and w: "w = \<lparr>ctor = T, buffer = length h, byteOffset = 0, byteLength = n * BPE T,
                   length_mv = n * BPE T / BPE T\<rparr>"
      by (auto simp: asMemory_def allocateMemory_def split: if_splits)
    from ix have "0 \<le> n * BPE T" by (simp add: is_index_def)
    with kpos have n0: "0 \<le> n" by (simp add: zero_le_mult_iff)
    have cap: "rat_of_nat (nat \<lfloor>n * BPE T\<rfloor>) = n * BPE T"
      using ix by (rule is_index_nat)
    show ?thesis
      using n0 knz by (simp add: well_formed_def within_capacity_def h1 w cap)
  next
    case other
    with assms(1) show ?thesis
      by (auto simp: asMemory_def allocateMemory_def well_formed_def within_capacity_def)
  next
    case up
    then show ?thesis by (rule uploaded)
  qed
qed

lemma ctor_handle_well_formed:
  assumes "MemoryView_new T h (Args1 (SrcMemory p)) = Inr (h1, w)"
    and "length (bytes (h ! p)) \<le> capacity (h ! p)"
  shows "well_formed h1 w"
proof -
  have knz: "BPE T \<noteq> 0" using BYTES_PER_ELEMENT_pos [of T] by simp
  show ?thesis
    using assms knz
    by (auto simp: asMemory_def well_formed_def within_capacity_def split: if_splits)
qed

lemma ctor_range_well_formed:
  assumes "p < length h"
  shows "\<exists>w. MemoryView_new T h (Args3 (SrcMemory p) (Coerces off) (Coerces len)) = Inr (h, w)
           \<and> buffer w = p \<and> byteOffset w = or0 (Math_max0 off)
           \<and> length_mv w = or0 (Math_max0 len)
           \<and> byteLength w = or0 (Math_max0 len) * BPE T
           \<and> (well_formed h w \<longleftrightarrow>
                or0 (Math_max0 off) + or0 (Math_max0 len) * BPE T \<le> of_nat (capacity (h ! p)))"
  using assms or0_ge0 [of off] or0_ge0 [of len]
  by (simp add: asMemory_def coerce0_def unary_plus_def Let_def well_formed_def
        within_capacity_def)

lemma ctor_view_well_formed:
  assumes "valid_view h v" "byteOffset v = 0"
  shows "\<exists>h1 w. MemoryView_new T h (Args1 (SrcMemoryView v)) = Inr (h1, w) \<and> well_formed h1 w"
proof -
  let ?k = "BYTES_PER_ELEMENT (ctor v)"
  let ?B = "bytes (h ! buffer v)"
  from assms(1) obtain off len :: nat where
    v: "byteOffset v = of_nat off" "length_mv v = of_nat len"
       "byteLength v = of_nat (len * ?k)" "buffer v < length h"
    and le: "off + len * ?k \<le> length ?B"
    by (rule valid_viewE)
  from v(1) assms(2) have off: "off = 0" by simp
  have knz: "BPE T \<noteq> 0" using BYTES_PER_ELEMENT_pos [of T] by simp
  define bs where "bs = drop 0 (take (len * ?k) ?B)"
  have lbs: "length bs = len * ?k" using le off by (simp add: bs_def)
  have ms: "Memory_slice h (buffer v) (of_nat 0) (of_nat (len * ?k))
              = Inr (h @ [\<lparr>bytes = bs, capacity = length bs\<rparr>], length h)"
    using v(4) by (simp add: Memory_slice_def Let_def bs_def del: of_nat_mult)
  have "MemoryView_new T h (Args1 (SrcMemoryView v))
          = Inr (h @ [\<lparr>bytes = bs, capacity = length bs\<rparr>],
                 \<lparr>ctor = T, buffer = length h, byteOffset = 0,
                   byteLength = of_nat (len * ?k), length_mv = of_nat (len * ?k) / BPE T\<rparr>)"
    using ms by (simp add: asMemory_def assms(2) v(3) del: of_nat_mult)
  moreover have "well_formed (h @ [\<lparr>bytes = bs, capacity = length bs\<rparr>])
                 \<lparr>ctor = T, buffer = length h, byteOffset = 0,
                   byteLength = of_nat (len * ?k), length_mv = of_nat (len * ?k) / BPE T\<rparr>"
    using knz by (simp add: well_formed_def within_capacity_def lbs del: of_nat_mult)
  ultimately show ?thesis by blast
qed

lemma subarray_well_formed:
  assumes "well_formed h v"
  shows "\<exists>w. subarray h v begin end = Inr (h, w) \<and> well_formed h w"
proof -
  from assms have p: "buffer v < length h" and o: "0 \<le> byteOffset v" and l: "0 \<le> length_mv v"
    and bl: "byteLength v = length_mv v * BPE (ctor v)"
    and cap: "byteOffset v + byteLength v \<le> of_nat (capacity (h ! buffer v))"
    by (simp_all add: well_formed_def within_capacity_def)
  obtain b e where cl: "clamp (length_mv v) begin end = (b, e)" by (cases "clamp (length_mv v) begin end")
  from l cl have be: "0 \<le> b" "b \<le> e" "e \<le> length_mv v" by (rule clamp_bounds)+
  let ?w = "\<lparr>ctor = ctor v, buffer = buffer v,
                    byteOffset = byteOffset v + b * BPE (ctor v),
                    byteLength = (e - b) * BPE (ctor v), length_mv = e - b\<rparr>"
  have sub: "subarray h v begin end = Inr (h, ?w)"
    using p o l cl by (rule subarray_eq)
  have "e * BPE (ctor v) \<le> length_mv v * BPE (ctor v)"
    using be(3) by (simp add: mult_right_mono)
  then have "byteOffset ?w + byteLength ?w \<le> byteOffset v + byteLength v"
    by (simp add: bl algebra_simps)
  from this cap have "byteOffset ?w + byteLength ?w \<le> of_nat (capacity (h ! buffer v))"
    by (rule order_trans)
  then have "well_formed h ?w"
    using p o be by (simp add: well_formed_def within_capacity_def)
  with sub show ?thesis by blast
qed

lemma slice_well_formed:
  assumes "slice h v start end = Inr (h1, w)"
  shows "well_formed h1 w" and "extends h h1"
proof -
  obtain s e where cl: "clamp (length_mv v) start end = (s, e)"
    by (cases "clamp (length_mv v) start end")
  from assms cl obtain h' p where
    ms: "Memory_slice h (buffer v) (byteOffset v + s * BPE (ctor v))
           (byteOffset v + e * BPE (ctor v)) = Inr (h', p)"
    and new: "MemoryView_new (ctor v) h' (Args1 (SrcMemory p)) = Inr (h1, w)"
    by (auto simp: slice_def simp del: MemoryView_new.simps split: sum.splits)
  from ms have "length (bytes (h' ! p)) \<le> capacity (h' ! p)"
    by (auto simp: Memory_slice_def Let_def split: if_splits)
  with new show "well_formed h1 w" by (rule ctor_handle_well_formed)
  from ms have "extends h h'" by (rule Memory_slice_extends)
  moreover from new have "extends h' h1" by (rule MemoryView_new_extends)
  ultimately show "extends h h1" by (rule extends_trans)
qed
section \<open>The clamping rule\<close>

text \<open>
  C6. The clamping rule shared by fill, slice, subarray and set, for every length not
  below 0 and all arguments, omitted, negative or out of range. Each given value resolves
  by itself: a value below \<open>-length\<close> to 0, a negative value \<open>x\<close> from \<open>-length\<close> on to
  \<open>length + x\<close>, a value in \<open>[0, length]\<close> to itself, a value beyond the length to the
  length; an omitted start is 0 and an omitted end is the length; the window is the resolved
  pair, and when the start resolves beyond the end it is empty, both bounds at the resolved
  end. So the window lies in \<open>[0, length]\<close> with start \<open>\<le>\<close> end; a negative value stands
  for \<open>length + x\<close> cut at 0, and a value beyond the length for the length; and on a view
  of length 10, \<open>slice(-3)\<close> is \<open>slice(7, 10)\<close>.
\<close>

theorem clamp_rule:
  assumes "0 \<le> len"
  shows "clamp len lhs rhs =
           (let r = (\<lambda>x. if x < - len then 0 else if x < 0 then len + x
                          else if x \<le> len then x else len);
                s = (case lhs of None \<Rightarrow> 0 | Some x \<Rightarrow> r x);
                e = (case rhs of None \<Rightarrow> len | Some x \<Rightarrow> r x)
            in if e < s then (e, e) else (s, e))
         \<and> 0 \<le> fst (clamp len lhs rhs) \<and> fst (clamp len lhs rhs) \<le> snd (clamp len lhs rhs)
           \<and> snd (clamp len lhs rhs) \<le> len
         \<and> (x < 0 \<longrightarrow>
               clamp len (Some x) rhs = clamp len (Some (max 0 (len + x))) rhs
             \<and> clamp len lhs (Some x) = clamp len lhs (Some (max 0 (len + x))))
         \<and> (x < 0 \<and> 0 \<le> len + x \<longrightarrow>
               clamp len (Some x) rhs = clamp len (Some (len + x)) rhs
             \<and> clamp len lhs (Some x) = clamp len lhs (Some (len + x)))
         \<and> (len < y \<longrightarrow>
               clamp len (Some y) rhs = clamp len (Some len) rhs
             \<and> clamp len lhs (Some y) = clamp len lhs (Some len))
         \<and> clamp len lhs None = clamp len lhs (Some len)
         \<and> clamp len None rhs = clamp len (Some 0) rhs
         \<and> (0 \<le> a \<and> a \<le> b \<and> b \<le> len \<longrightarrow> clamp len (Some a) (Some b) = (a, b))
         \<and> (resolve len b < resolve len a \<longrightarrow>
               fst (clamp len (Some a) (Some b)) = snd (clamp len (Some a) (Some b)))
         \<and> (len = 10 \<longrightarrow> clamp len (Some (-3)) None = clamp len (Some 7) (Some 10))
         \<and> (length_mv v = 10 \<longrightarrow>
               slice h v (Some (-3)) None = slice h v (Some 7) (Some 10))"
proof -
  have r: "resolve len z = (if z < - len then 0 else if z < 0 then len + z
                            else if z \<le> len then z else len)" for z
    using assms by (simp add: resolve_def max_def min_def)
  have full: "clamp len lhs rhs =
           (let r = (\<lambda>x. if x < - len then 0 else if x < 0 then len + x
                          else if x \<le> len then x else len);
                s = (case lhs of None \<Rightarrow> 0 | Some x \<Rightarrow> r x);
                e = (case rhs of None \<Rightarrow> len | Some x \<Rightarrow> r x)
            in if e < s then (e, e) else (s, e))"
    using assms by (simp add: clamp_def Let_def r split: option.splits)
  have rest: "0 \<le> fst (clamp len lhs rhs) \<and> fst (clamp len lhs rhs) \<le> snd (clamp len lhs rhs)
           \<and> snd (clamp len lhs rhs) \<le> len
         \<and> (x < 0 \<longrightarrow>
               clamp len (Some x) rhs = clamp len (Some (max 0 (len + x))) rhs
             \<and> clamp len lhs (Some x) = clamp len lhs (Some (max 0 (len + x))))
         \<and> (x < 0 \<and> 0 \<le> len + x \<longrightarrow>
               clamp len (Some x) rhs = clamp len (Some (len + x)) rhs
             \<and> clamp len lhs (Some x) = clamp len lhs (Some (len + x)))
         \<and> (len < y \<longrightarrow>
               clamp len (Some y) rhs = clamp len (Some len) rhs
             \<and> clamp len lhs (Some y) = clamp len lhs (Some len))
         \<and> clamp len lhs None = clamp len lhs (Some len)
         \<and> clamp len None rhs = clamp len (Some 0) rhs
         \<and> (0 \<le> a \<and> a \<le> b \<and> b \<le> len \<longrightarrow> clamp len (Some a) (Some b) = (a, b))
         \<and> (resolve len b < resolve len a \<longrightarrow>
               fst (clamp len (Some a) (Some b)) = snd (clamp len (Some a) (Some b)))
         \<and> (len = 10 \<longrightarrow> clamp len (Some (-3)) None = clamp len (Some 7) (Some 10))
         \<and> (length_mv v = 10 \<longrightarrow>
               slice h v (Some (-3)) None = slice h v (Some 7) (Some 10))"
    using assms
    by (auto simp: clamp_def Let_def resolve_def slice_def split: option.splits if_splits)
  from full rest show ?thesis by (rule conjI)
qed

theorem clamp_rule_witness:
  "clamp 10 (Some (-3)) None = (7, 10) \<and> clamp 10 (Some 7) (Some 10) = (7, 10)
   \<and> clamp 10 (Some (-13)) None = (0, 10) \<and> clamp 10 (Some 20) None = (10, 10)
   \<and> clamp 10 (Some 2) (Some 20) = (2, 10) \<and> clamp 10 (Some 2) (Some (-13)) = (0, 0)
   \<and> clamp 10 (Some 8) (Some 2) = (2, 2) \<and> clamp 10 (Some (-3)) (Some 25) = (7, 10)
   \<and> slice [\<lparr>bytes = [0, 1, 2, 3, 4, 5, 6, 7, 8, 9], capacity = 10\<rparr>]
         \<lparr>ctor = Uint8Array, buffer = 0, byteOffset = 0, byteLength = 10, length_mv = 10\<rparr>
         (Some (-3)) None
       = slice [\<lparr>bytes = [0, 1, 2, 3, 4, 5, 6, 7, 8, 9], capacity = 10\<rparr>]
         \<lparr>ctor = Uint8Array, buffer = 0, byteOffset = 0, byteLength = 10, length_mv = 10\<rparr>
         (Some 7) (Some 10)"
proof -
  let ?v = "\<lparr>ctor = Uint8Array, buffer = 0, byteOffset = 0, byteLength = 10, length_mv = 10\<rparr>"
  let ?h = "[\<lparr>bytes = [0, 1, 2, 3, 4, 5, 6, 7, 8, 9], capacity = 10\<rparr>]"
  have len: "(0::rat) \<le> 10" by simp
  note w1 = clamp_rule [OF len, where lhs = "Some (-3)" and rhs = None and x = "-3" and y = 20
      and a = 7 and b = 10 and v = ?v and h = ?h]
  note w2 = clamp_rule [OF len, where lhs = "Some (-13)" and rhs = None and x = "-13" and y = 20
      and a = 8 and b = 2 and v = ?v and h = ?h]
  note w3 = clamp_rule [OF len, where lhs = "Some 20" and rhs = None and x = "-13" and y = 20
      and a = 8 and b = 2 and v = ?v and h = ?h]
  note w4 = clamp_rule [OF len, where lhs = "Some 2" and rhs = "Some 20" and x = "-13"
      and y = 20 and a = 8 and b = 2 and v = ?v and h = ?h]
  note w5 = clamp_rule [OF len, where lhs = "Some 2" and rhs = "Some (-13)" and x = "-13"
      and y = 20 and a = 8 and b = 2 and v = ?v and h = ?h]
  note w6 = clamp_rule [OF len, where lhs = "Some 8" and rhs = "Some 2" and x = "-13"
      and y = 20 and a = 8 and b = 2 and v = ?v and h = ?h]
  note w7 = clamp_rule [OF len, where lhs = "Some (-3)" and rhs = "Some 25" and x = "-13"
      and y = 20 and a = 8 and b = 2 and v = ?v and h = ?h]
  have c1: "clamp 10 (Some (-3)) None = (7, 10)" using w1 [THEN conjunct1] by simp
  have c2: "clamp 10 (Some 7) (Some 10) = (7, 10)" using w1 by simp
  have c3: "clamp 10 (Some (-13)) None = (0, 10)" using w2 [THEN conjunct1] by simp
  have c4: "clamp 10 (Some 20) None = (10, 10)" using w3 [THEN conjunct1] by simp
  have c5: "clamp 10 (Some 2) (Some 20) = (2, 10)" using w4 [THEN conjunct1] by simp
  have c6: "clamp 10 (Some 2) (Some (-13)) = (0, 0)" using w5 [THEN conjunct1] by simp
  have c7: "clamp 10 (Some 8) (Some 2) = (2, 2)" using w6 [THEN conjunct1] by simp
  have c8: "clamp 10 (Some (-3)) (Some 25) = (7, 10)" using w7 [THEN conjunct1] by simp
  have c9: "slice ?h ?v (Some (-3)) None = slice ?h ?v (Some 7) (Some 10)"
    using w1 by simp
  from c1 c2 c3 c4 c5 c6 c7 c8 c9 show ?thesis by blast
qed

section \<open>Construction\<close>

text \<open>
  C9 (as amended). In the three-argument constructor, a length that unary plus turns into
  \<open>NaN\<close> or into a number below 0 becomes 0, and nothing is raised on its account: the
  constructor fails only where \<open>asMemory\<close> or the coercion of the offset does, and
  otherwise yields the view of \<open>asMemory\<close> with length 0 and byte length 0; over a memory
  handle of the store, with an offset that coerces, it succeeds.
  The theorem also records what the code does with a length that unary plus refuses: on a
  Symbol or a BigInt the constructor raises a \<open>TypeError\<close> once \<open>asMemory\<close> has returned.
\<close>

theorem ctor_invalid_length:
  assumes "n = NaN \<or> (\<exists>r. n = Num r \<and> r < 0)"
  shows "MemoryView_new T h (Args3 src off (Coerces n)) =
           (case asMemory h src T of
              Inl e \<Rightarrow> Inl e
            | Inr (h1, this) \<Rightarrow>
                (case coerce0 off of
                   Inl e \<Rightarrow> Inl e
                 | Inr b \<Rightarrow> Inr (h1, this\<lparr>length_mv := 0, byteLength := 0, byteOffset := b\<rparr>)))
         \<and> (p < length h \<longrightarrow>
              (\<exists>v. MemoryView_new T h (Args3 (SrcMemory p) (Coerces m) (Coerces n)) = Inr (h, v)
                    \<and> length_mv v = 0 \<and> byteLength v = 0))
         \<and> (\<forall>h1 this k. asMemory h src T = Inr (h1, this) \<longrightarrow>
               MemoryView_new T h (Args3 src off SymbolValue) = Inl TypeError
             \<and> MemoryView_new T h (Args3 src off (BigIntValue k)) = Inl TypeError)"
proof -
  from assms have z: "coerce0 (Coerces n) = Inr 0"
    by (auto simp: coerce0_def unary_plus_def or0_def Math_max0_def max_def)
  have a: "MemoryView_new T h (Args3 src off (Coerces n)) =
           (case asMemory h src T of
              Inl e \<Rightarrow> Inl e
            | Inr (h1, this) \<Rightarrow>
                (case coerce0 off of
                   Inl e \<Rightarrow> Inl e
                 | Inr b \<Rightarrow> Inr (h1, this\<lparr>length_mv := 0, byteLength := 0, byteOffset := b\<rparr>)))"
    by (simp add: z split: sum.splits)
  have b: "\<exists>v. MemoryView_new T h (Args3 (SrcMemory p) (Coerces m) (Coerces n)) = Inr (h, v)
                    \<and> length_mv v = 0 \<and> byteLength v = 0"
    if "p < length h"
    using that by (simp add: z asMemory_def coerce0_def [of "Coerces m"] unary_plus_def)
  have c: "\<forall>h1 this k. asMemory h src T = Inr (h1, this) \<longrightarrow>
               MemoryView_new T h (Args3 src off SymbolValue) = Inl TypeError
             \<and> MemoryView_new T h (Args3 src off (BigIntValue k)) = Inl TypeError"
    by (simp add: coerce0_def unary_plus_def)
  from a b c show ?thesis by blast
qed

theorem ctor_invalid_length_witness:
  "MemoryView_new Int32Array [\<lparr>bytes = [1, 2, 3, 4], capacity = 4\<rparr>]
      (Args3 (SrcMemory 0) (Coerces (Num 0)) (Coerces NaN))
     = Inr ([\<lparr>bytes = [1, 2, 3, 4], capacity = 4\<rparr>],
            \<lparr>ctor = Int32Array, buffer = 0, byteOffset = 0, byteLength = 0, length_mv = 0\<rparr>)
   \<and> MemoryView_new Int32Array [\<lparr>bytes = [1, 2, 3, 4], capacity = 4\<rparr>]
      (Args3 (SrcMemory 0) (Coerces (Num 0)) (Coerces (Num (-2))))
     = Inr ([\<lparr>bytes = [1, 2, 3, 4], capacity = 4\<rparr>],
            \<lparr>ctor = Int32Array, buffer = 0, byteOffset = 0, byteLength = 0, length_mv = 0\<rparr>)
   \<and> MemoryView_new Int32Array [\<lparr>bytes = [1, 2, 3, 4], capacity = 4\<rparr>]
      (Args3 (SrcMemory 0) (Coerces (Num 0)) (BigIntValue 3)) = Inl TypeError"
  using ctor_invalid_length [where n = NaN and T = Int32Array
          and h = "[\<lparr>bytes = [1, 2, 3, 4], capacity = 4\<rparr>]"
          and src = "SrcMemory 0" and off = "Coerces (Num 0)" and p = 0 and m = "Num 0"]
        ctor_invalid_length [where n = "Num (-2)" and T = Int32Array
          and h = "[\<lparr>bytes = [1, 2, 3, 4], capacity = 4\<rparr>]"
          and src = "SrcMemory 0" and off = "Coerces (Num 0)" and p = 0 and m = "Num 0"]
  by (simp add: asMemory_def or0_def Math_max0_def coerce0_def unary_plus_def)

text \<open>
  C9 as stated fails: a length that is a Symbol cannot be coerced to a number, and the
  constructor raises a \<open>TypeError\<close> instead of taking 0.
\<close>

theorem ctor_symbol_length_counterexample:
  "MemoryView_new Int32Array [\<lparr>bytes = [1, 2, 3, 4], capacity = 4\<rparr>]
      (Args3 (SrcMemory 0) (Coerces (Num 0)) SymbolValue) = Inl TypeError"
  by (simp add: eval_defs)

text \<open>
  C2 (as amended). A single-argument construction that succeeds yields
  \<open>length = byteLength / elementSize\<close>, and \<open>byteOffset = 0\<close> for every source but an
  object that carries its own \<open>byteOffset\<close> property. From another view \<open>v\<close> the new
  view takes the byte length of \<open>v\<close>; its length is that of \<open>v\<close> when the two classes have
  the same element size.
\<close>

theorem ctor_single_argument:
  assumes "MemoryView_new T h (Args1 src) = Inr (h1, w)"
  shows "length_mv w = byteLength w / BPE T
         \<and> ((\<forall>b l k. src \<noteq> SrcViewLike b l k) \<longrightarrow> byteOffset w = 0)
         \<and> (\<forall>v. src = SrcMemoryView v \<longrightarrow>
               byteLength w = byteLength v
             \<and> (byteLength v = length_mv v * BPE (ctor v)
                  \<and> BYTES_PER_ELEMENT (ctor v) = BYTES_PER_ELEMENT T
                \<longrightarrow> length_mv w = length_mv v))"
proof -
  from assms obtain p len off where
    parts: "asMemory_parts h src T = Inr (h1, p, len, off)" and
    w: "w = \<lparr>ctor = T, buffer = p, byteOffset = off, byteLength = len, length_mv = len / BPE T\<rparr>"
    by (auto simp: asMemory_def split: sum.splits)
  have "0 < BYTES_PER_ELEMENT T" by (rule BYTES_PER_ELEMENT_pos)
  then have nz: "BPE T \<noteq> 0" by simp
  have a: "length_mv w = byteLength w / BPE T" by (simp add: w)
  have b: "(\<forall>b l k. src \<noteq> SrcViewLike b l k) \<longrightarrow> byteOffset w = 0"
    using asMemory_parts_offset [OF parts] by (simp add: w)
  have c: "\<forall>v. src = SrcMemoryView v \<longrightarrow>
               byteLength w = byteLength v
             \<and> (byteLength v = length_mv v * BPE (ctor v)
                  \<and> BYTES_PER_ELEMENT (ctor v) = BYTES_PER_ELEMENT T
                \<longrightarrow> length_mv w = length_mv v)"
    using parts nz by (auto simp: w split: sum.splits)
  from a b c show ?thesis by blast
qed

theorem ctor_single_argument_witness:
  "MemoryView_new Int16Array [\<lparr>bytes = [1, 0, 2, 0, 3, 0], capacity = 6\<rparr>]
      (Args1 (SrcMemoryView
         \<lparr>ctor = Uint16Array, buffer = 0, byteOffset = 0, byteLength = 6, length_mv = 3\<rparr>))
     = Inr ([\<lparr>bytes = [1, 0, 2, 0, 3, 0], capacity = 6\<rparr>,
             \<lparr>bytes = [1, 0, 2, 0, 3, 0], capacity = 6\<rparr>],
            \<lparr>ctor = Int16Array, buffer = 1, byteOffset = 0, byteLength = 6, length_mv = 3\<rparr>)
   \<and> (3::rat) = 6 / BPE Int16Array"
  using ctor_single_argument [of Int16Array "[\<lparr>bytes = [1, 0, 2, 0, 3, 0], capacity = 6\<rparr>]"
          "SrcMemoryView
             \<lparr>ctor = Uint16Array, buffer = 0, byteOffset = 0, byteLength = 6, length_mv = 3\<rparr>"
          "[\<lparr>bytes = [1, 0, 2, 0, 3, 0], capacity = 6\<rparr>,
            \<lparr>bytes = [1, 0, 2, 0, 3, 0], capacity = 6\<rparr>]"
          "\<lparr>ctor = Int16Array, buffer = 1, byteOffset = 0, byteLength = 6, length_mv = 3\<rparr>"]
  by (simp add: eval_defs)

text \<open>
  C2 as stated fails: a \<open>Uint8Buffer\<close> made from an \<open>Int32Buffer\<close> of length 2 has
  length 8.
\<close>

theorem ctor_from_view_length_counterexample:
  "MemoryView_new Uint8Array [\<lparr>bytes = [1, 0, 0, 0, 2, 0, 0, 0], capacity = 8\<rparr>]
      (Args1 (SrcMemoryView
         \<lparr>ctor = Int32Array, buffer = 0, byteOffset = 0, byteLength = 8, length_mv = 2\<rparr>))
     = Inr ([\<lparr>bytes = [1, 0, 0, 0, 2, 0, 0, 0], capacity = 8\<rparr>,
             \<lparr>bytes = [1, 0, 0, 0, 2, 0, 0, 0], capacity = 8\<rparr>],
            \<lparr>ctor = Uint8Array, buffer = 1, byteOffset = 0, byteLength = 8, length_mv = 8\<rparr>)
   \<and> length_mv \<lparr>ctor = Uint8Array, buffer = 1, byteOffset = 0, byteLength = 8, length_mv = 8\<rparr>
       \<noteq> length_mv \<lparr>ctor = Int32Array, buffer = 0, byteOffset = 0, byteLength = 8, length_mv = 2\<rparr>"
  by (simp add: eval_defs)

section \<open>Bulk copy\<close>

text \<open>
  C7. \<open>set\<close> takes the second component of the clamped window, its end, for a size: on
  a \<open>Uint8Buffer\<close> of length 4, \<open>set\<close> of four bytes at start 2 asks the copy primitive
  for \<open>min (4 * 1) 4 = 4\<close> bytes into the sub-view of length 2 at offset 2, where the
  window of two elements gives \<open>min (2 * 1) 4 = 2\<close>; the copy leaves the handle and fails.
\<close>

theorem set_copy_size_overrun:
  "set_call [\<lparr>bytes = [0, 0, 0, 0], capacity = 4\<rparr>]
      \<lparr>ctor = Uint8Array, buffer = 0, byteOffset = 0, byteLength = 4, length_mv = 4\<rparr>
      (SrcArrayBufferView [1, 2, 3, 4]) (Some 2)
     = Inr ([\<lparr>bytes = [0, 0, 0, 0], capacity = 4\<rparr>, \<lparr>bytes = [1, 2, 3, 4], capacity = 4\<rparr>],
            \<lparr>ctor = Uint8Array, buffer = 0, byteOffset = 2, byteLength = 2, length_mv = 2\<rparr>,
            \<lparr>ctor = Uint8Array, buffer = 1, byteOffset = 0, byteLength = 4, length_mv = 4\<rparr>,
            4)
   \<and> set_mv [\<lparr>bytes = [0, 0, 0, 0], capacity = 4\<rparr>]
      \<lparr>ctor = Uint8Array, buffer = 0, byteOffset = 0, byteLength = 4, length_mv = 4\<rparr>
      (SrcArrayBufferView [1, 2, 3, 4]) (Some 2) = Inl CopyFailure"
  by (simp add: eval_defs)

section \<open>Indexed element access\<close>




text \<open>
  C10. For an index within the length: when the \<open>get\<close> or the \<open>set\<close> handler completes,
  the view is as before in every field (class, buffer, byteOffset, byteLength, length);
  a \<open>get\<close> that fails in the copy leaves \<open>byteOffset\<close> advanced by
  \<open>i * elementSize\<close>; and on a valid view, with the staging buffer of eight bytes, both
  handlers complete.
\<close>

theorem in_range_access_restores:
  assumes "0 \<le> i" "of_int i < length_mv v"
  shows "(\<forall>x v' E'. proxy_get h E v i = (Inr x, v', E') \<longrightarrow> v' = v)
       \<and> (\<forall>ok v' E' ps' h'. proxy_set h E ps v i val = (Inr ok, v', E', ps', h') \<longrightarrow> v' = v)
       \<and> (\<forall>e v' E'. proxy_get h E v i = (Inl e, v', E') \<longrightarrow>
             v' = v\<lparr>byteOffset := byteOffset v + of_int i * BPE (ctor v)\<rparr>)
       \<and> (valid_view h v \<and> length E = 8 \<longrightarrow>
             (\<exists>x E'. proxy_get h E v i = (Inr x, v, E'))
           \<and> (\<exists>E' h'. proxy_set h E ps v i val = (Inr True, v, E', ps, h')))"
proof -
  have a: "\<forall>x v' E'. proxy_get h E v i = (Inr x, v', E') \<longrightarrow> v' = v"
    using assms by (auto simp: proxy_get_def Let_def split: sum.splits)
  have b: "\<forall>ok v' E' ps' h'. proxy_set h E ps v i val = (Inr ok, v', E', ps', h') \<longrightarrow> v' = v"
    using assms by (auto simp: proxy_set_def Let_def split: sum.splits)
  have c: "\<forall>e v' E'. proxy_get h E v i = (Inl e, v', E') \<longrightarrow>
             v' = v\<lparr>byteOffset := byteOffset v + of_int i * BPE (ctor v)\<rparr>"
    using assms by (auto simp: proxy_get_def Let_def split: sum.splits)
  have d: "(\<exists>x E'. proxy_get h E v i = (Inr x, v, E'))
           \<and> (\<exists>E' h'. proxy_set h E ps v i val = (Inr True, v, E', ps, h'))"
    if vv: "valid_view h v" and E: "length E = 8"
  proof -
    from vv obtain off len :: nat where
      v: "byteOffset v = of_nat off" "length_mv v = of_nat len" "buffer v < length h"
         "off + len * BYTES_PER_ELEMENT (ctor v) \<le> length (bytes (h ! buffer v))"
      by (rule valid_viewE)
    define j where "j = nat i"
    have i: "i = int j" using assms(1) by (simp add: j_def)
    from assms(2) have j: "j < len" by (simp add: i v(2))
    show ?thesis
      unfolding i
      using proxy_get_valid [OF v(1) v(3) j v(2) v(4) E]
            proxy_set_valid [OF v(1) v(3) j v(2) v(4) E]
      by simp
  qed
  from a b c d show ?thesis by blast
qed

theorem in_range_access_restores_witness:
  "(0::int) \<le> 1 \<and> of_int 1 < (3::rat)
   \<and> valid_view [\<lparr>bytes = [1, 0, 2, 0, 3, 0, 4, 0], capacity = 8\<rparr>]
        \<lparr>ctor = Int16Array, buffer = 0, byteOffset = 2, byteLength = 6, length_mv = 3\<rparr>
   \<and> proxy_get [\<lparr>bytes = [1, 0, 2, 0, 3, 0, 4, 0], capacity = 8\<rparr>] [0, 0, 0, 0, 0, 0, 0, 0]
        \<lparr>ctor = Int16Array, buffer = 0, byteOffset = 2, byteLength = 6, length_mv = 3\<rparr> 1
      = (Inr (Element [3, 0]),
         \<lparr>ctor = Int16Array, buffer = 0, byteOffset = 2, byteLength = 6, length_mv = 3\<rparr>,
         [3, 0, 0, 0, 0, 0, 0, 0])
   \<and> proxy_set [\<lparr>bytes = [1, 0, 2, 0, 3, 0, 4, 0], capacity = 8\<rparr>] [0, 0, 0, 0, 0, 0, 0, 0] []
        \<lparr>ctor = Int16Array, buffer = 0, byteOffset = 2, byteLength = 6, length_mv = 3\<rparr> 1 [7, 1]
      = (Inr True,
         \<lparr>ctor = Int16Array, buffer = 0, byteOffset = 2, byteLength = 6, length_mv = 3\<rparr>,
         [7, 1, 0, 0, 0, 0, 0, 0], [], [\<lparr>bytes = [1, 0, 2, 0, 7, 1, 4, 0], capacity = 8\<rparr>])"
  using in_range_access_restores [of 1
          "\<lparr>ctor = Int16Array, buffer = 0, byteOffset = 2, byteLength = 6, length_mv = 3\<rparr>"
          "[\<lparr>bytes = [1, 0, 2, 0, 3, 0, 4, 0], capacity = 8\<rparr>]" "[0, 0, 0, 0, 0, 0, 0, 0]"
          "[]" "[7, 1]"]
  by (simp add: eval_defs valid_view_def)

section \<open>Sub-views\<close>



section \<open>Host round trip\<close>

text \<open>
  C3. For every class and every host array \<open>A\<close> of values of that class (each value
  taking one element), given as a plain sequence or as a typed array: the single-argument
  constructor succeeds with a view of \<open>length A\<close> elements, and \<open>toArray\<close> of that view
  returns a typed array whose elements are those of \<open>A\<close>.
\<close>

theorem round_trip:
  assumes "\<forall>a \<in> set A. length a = BYTES_PER_ELEMENT T"
    and "src = SrcIterable A \<or> src = SrcArrayLike A \<or> src = SrcArrayBufferView (concat A)"
  shows "\<exists>h1 v b. MemoryView_new T h (Args1 src) = Inr (h1, v)
           \<and> length_mv v = of_nat (length A)
           \<and> toArray h1 v = Inr b
           \<and> b = concat A \<and> elements T b = A"
proof -
  let ?k = "BYTES_PER_ELEMENT T"
  let ?b = "concat A"
  let ?h1 = "h @ [\<lparr>bytes = ?b, capacity = length ?b\<rparr>]"
  let ?v = "\<lparr>ctor = T, buffer = length h, byteOffset = 0, byteLength = of_nat (length ?b),
             length_mv = of_nat (length ?b) / BPE T\<rparr>"
  have lb: "length ?b = length A * ?k" using assms(1) by (rule length_concat_elements)
  have kpos: "0 < ?k" by (rule BYTES_PER_ELEMENT_pos)
  have parts: "asMemory_parts h src T = upload h ?b"
    using assms(2) by auto
  have new: "MemoryView_new T h (Args1 src) = Inr (?h1, ?v)"
    by (simp add: asMemory_def parts upload_eq)
  have knz: "?k \<noteq> 0" using kpos by simp
  have len: "length_mv ?v = of_nat (length A)"
    by (simp add: lb knz)
  have "toArray ?h1 ?v = Inr (take (length A * BYTES_PER_ELEMENT (ctor ?v))
                              (drop 0 (bytes (?h1 ! buffer ?v))))"
  proof (rule toArray_valid)
    show "byteOffset ?v = of_nat 0" by simp
    show "length_mv ?v = of_nat (length A)" by (rule len)
    show "buffer ?v < length ?h1" by simp
    show "0 + length A * BYTES_PER_ELEMENT (ctor ?v) \<le> length (bytes (?h1 ! buffer ?v))"
      by (simp add: lb)
  qed
  then have ta: "toArray ?h1 ?v = Inr ?b" by (simp add: lb)
  have "elements T ?b = A" using assms(1) by (rule elements_concat)
  with new len ta show ?thesis by blast
qed

theorem round_trip_witness:
  "length [3, 0 :: byte] = BYTES_PER_ELEMENT Int16Array
   \<and> MemoryView_new Int16Array [] (Args1 (SrcIterable [[1, 0], [2, 0], [3, 0]]))
       = Inr ([\<lparr>bytes = [1, 0, 2, 0, 3, 0], capacity = 6\<rparr>],
              \<lparr>ctor = Int16Array, buffer = 0, byteOffset = 0, byteLength = 6, length_mv = 3\<rparr>)
   \<and> toArray [\<lparr>bytes = [1, 0, 2, 0, 3, 0], capacity = 6\<rparr>]
         \<lparr>ctor = Int16Array, buffer = 0, byteOffset = 0, byteLength = 6, length_mv = 3\<rparr>
       = Inr [1, 0, 2, 0, 3, 0]
   \<and> elements Int16Array [1, 0, 2, 0, 3, 0] = [[1, 0], [2, 0], [3, 0]]"
  using round_trip [of "[[1, 0], [2, 0], [3, 0]]" Int16Array
          "SrcIterable [[1, 0], [2, 0], [3, 0]]" "[]"]
  by (simp add: eval_defs elements_def)

section \<open>Slices\<close>



section \<open>The capacity invariant\<close>

text \<open>
  C1 (as amended). A view is well formed when its byte range lies within the capacity of
  its buffer, \<open>byteOffset + byteLength \<le> buffer.capacity\<close>, its offset and length are
  not below 0 and its byte length is its length times the element size. Then:
  \<^item> a construction with one argument that is a length, host data, a memory handle whose
    bytes lie within its capacity, or an object of no known shape yields a well-formed view
    when it succeeds, and so does a construction from a valid view at offset 0;
  \<^item> the three-argument constructor over a handle of the store stores the coerced offset and
    length as they are, and its view is well formed exactly when they lie within the
    capacity of the handle;
  \<^item> \<open>subarray\<close> of a well-formed view succeeds with a well-formed view; \<open>slice\<close>, when
    it succeeds, yields one;
  \<^item> \<open>set\<close>, \<open>copyFrom\<close>, \<open>fill\<close>, \<open>copyInto\<close> and an indexed read or write, when they
    complete, leave a well-formed view (and a well-formed target view) well formed.
\<close>

theorem capacity_invariant:
  "(MemoryView_new T h (Args1 src) = Inr (h1, w)
      \<and> (src = SrcNumber n \<or> src = SrcArrayBuffer bs \<or> src = SrcArrayBufferView bs
           \<or> src = SrcIterable A \<or> src = SrcArrayLike A \<or> src = SrcOther
           \<or> src = SrcMemory q \<and> length (bytes (h ! q)) \<le> capacity (h ! q))
      \<longrightarrow> well_formed h1 w)
   \<and> (valid_view h u \<and> byteOffset u = 0 \<longrightarrow>
         (\<exists>h2 w2. MemoryView_new T h (Args1 (SrcMemoryView u)) = Inr (h2, w2)
                   \<and> well_formed h2 w2))
   \<and> (p < length h \<longrightarrow>
         (\<exists>w3. MemoryView_new T h (Args3 (SrcMemory p) (Coerces off) (Coerces len))
                 = Inr (h, w3)
               \<and> (well_formed h w3 \<longleftrightarrow>
                    or0 (Math_max0 off) + or0 (Math_max0 len) * BPE T
                      \<le> of_nat (capacity (h ! p)))))
   \<and> (well_formed h v \<longrightarrow>
         byteOffset v + byteLength v \<le> of_nat (capacity (h ! buffer v))
       \<and> (\<exists>w4. subarray h v sb se = Inr (h, w4) \<and> well_formed h w4)
       \<and> (\<forall>h' w5. slice h v start end' = Inr (h', w5) \<longrightarrow>
              well_formed h' w5 \<and> well_formed h' v)
       \<and> (\<forall>h'. set_mv h v array st = Inr h' \<longrightarrow> well_formed h' v)
       \<and> (\<forall>h'. copyFrom h v array st = Inr h' \<longrightarrow> well_formed h' v)
       \<and> (\<forall>h'. fill h v val st en = Inr h' \<longrightarrow> well_formed h' v)
       \<and> (\<forall>h' t'. copyInto h v tgt st = Inr (h', t') \<longrightarrow>
              well_formed h' v
            \<and> (\<forall>t. tgt = TgtMemoryView t \<and> well_formed h t \<longrightarrow> well_formed h' t))
       \<and> (\<forall>x v' E'. proxy_get h E v i = (Inr x, v', E') \<longrightarrow> well_formed h v')
       \<and> (\<forall>ok v' E' ps' h'. proxy_set h E ps v i val = (Inr ok, v', E', ps', h') \<longrightarrow>
              well_formed h' v'))"
proof -
  have c1: "well_formed h1 w"
    if "MemoryView_new T h (Args1 src) = Inr (h1, w)"
      and "src = SrcNumber n \<or> src = SrcArrayBuffer bs \<or> src = SrcArrayBufferView bs
           \<or> src = SrcIterable A \<or> src = SrcArrayLike A \<or> src = SrcOther
           \<or> src = SrcMemory q \<and> length (bytes (h ! q)) \<le> capacity (h ! q)"
  proof (cases "src = SrcMemory q \<and> length (bytes (h ! q)) \<le> capacity (h ! q)")
    case True
    with that(1) show ?thesis by (auto intro: ctor_handle_well_formed)
  next
    case False
    with that(2) have "src = SrcNumber n \<or> src = SrcArrayBuffer bs \<or> src = SrcArrayBufferView bs
         \<or> src = SrcIterable A \<or> src = SrcArrayLike A \<or> src = SrcOther" by blast
    with that(1) show ?thesis by (rule ctor_fresh_well_formed)
  qed
  have cv: "\<exists>h2 w2. MemoryView_new T h (Args1 (SrcMemoryView u)) = Inr (h2, w2)
                   \<and> well_formed h2 w2"
    if "valid_view h u" "byteOffset u = 0"
    using that by (rule ctor_view_well_formed)
  have c3: "\<exists>w3. MemoryView_new T h (Args3 (SrcMemory p) (Coerces off) (Coerces len))
                 = Inr (h, w3)
               \<and> (well_formed h w3 \<longleftrightarrow>
                    or0 (Math_max0 off) + or0 (Math_max0 len) * BPE T
                      \<le> of_nat (capacity (h ! p)))"
    if "p < length h"
    using ctor_range_well_formed [OF that, of T off len] by blast
  have ops: "byteOffset v + byteLength v \<le> of_nat (capacity (h ! buffer v))
       \<and> (\<exists>w4. subarray h v sb se = Inr (h, w4) \<and> well_formed h w4)
       \<and> (\<forall>h' w5. slice h v start end' = Inr (h', w5) \<longrightarrow>
              well_formed h' w5 \<and> well_formed h' v)
       \<and> (\<forall>h'. set_mv h v array st = Inr h' \<longrightarrow> well_formed h' v)
       \<and> (\<forall>h'. copyFrom h v array st = Inr h' \<longrightarrow> well_formed h' v)
       \<and> (\<forall>h'. fill h v val st en = Inr h' \<longrightarrow> well_formed h' v)
       \<and> (\<forall>h' t'. copyInto h v tgt st = Inr (h', t') \<longrightarrow>
              well_formed h' v
            \<and> (\<forall>t. tgt = TgtMemoryView t \<and> well_formed h t \<longrightarrow> well_formed h' t))
       \<and> (\<forall>x v' E'. proxy_get h E v i = (Inr x, v', E') \<longrightarrow> well_formed h v')
       \<and> (\<forall>ok v' E' ps' h'. proxy_set h E ps v i val = (Inr ok, v', E', ps', h') \<longrightarrow>
              well_formed h' v')"
    if wf: "well_formed h v"
  proof -
    have o1: "byteOffset v + byteLength v \<le> of_nat (capacity (h ! buffer v))"
      using wf by (simp add: well_formed_def within_capacity_def)
    have o2: "\<exists>w4. subarray h v sb se = Inr (h, w4) \<and> well_formed h w4"
      using wf by (rule subarray_well_formed)
    have o3: "\<forall>h' w5. slice h v start end' = Inr (h', w5) \<longrightarrow>
              well_formed h' w5 \<and> well_formed h' v"
      using wf by (blast intro: slice_well_formed well_formed_extends)
    have o4: "\<forall>h'. set_mv h v array st = Inr h' \<longrightarrow> well_formed h' v"
      using wf by (blast intro: set_mv_extends well_formed_extends)
    have o5: "\<forall>h'. copyFrom h v array st = Inr h' \<longrightarrow> well_formed h' v"
      using o4 by (simp add: copyFrom_def)
    have o6: "\<forall>h'. fill h v val st en = Inr h' \<longrightarrow> well_formed h' v"
      using wf by (blast intro: fill_extends well_formed_extends)
    have o7: "\<forall>h' t'. copyInto h v tgt st = Inr (h', t') \<longrightarrow>
              well_formed h' v
            \<and> (\<forall>t. tgt = TgtMemoryView t \<and> well_formed h t \<longrightarrow> well_formed h' t)"
      using wf by (blast intro: copyInto_extends well_formed_extends)
    have o8: "\<forall>x v' E'. proxy_get h E v i = (Inr x, v', E') \<longrightarrow> well_formed h v'"
      using wf by (blast dest: proxy_get_completes)
    have o9: "\<forall>ok v' E' ps' h'. proxy_set h E ps v i val = (Inr ok, v', E', ps', h') \<longrightarrow>
              well_formed h' v'"
      using wf by (blast dest: proxy_set_completes intro: proxy_set_extends well_formed_extends)
    from o1 o2 o3 o4 o5 o6 o7 o8 o9 show ?thesis by blast
  qed
  from c1 cv c3 ops show ?thesis by blast
qed


theorem capacity_invariant_witness:
  "well_formed [\<lparr>bytes = [1, 2, 3, 4], capacity = 4\<rparr>]
      \<lparr>ctor = Uint8Array, buffer = 0, byteOffset = 0, byteLength = 4, length_mv = 4\<rparr>
   \<and> set_mv [\<lparr>bytes = [1, 2, 3, 4], capacity = 4\<rparr>]
        \<lparr>ctor = Uint8Array, buffer = 0, byteOffset = 0, byteLength = 4, length_mv = 4\<rparr>
        (SrcArrayBufferView [8, 9]) None
       = Inr [\<lparr>bytes = [8, 9, 3, 4], capacity = 4\<rparr>, \<lparr>bytes = [8, 9], capacity = 2\<rparr>]
   \<and> well_formed [\<lparr>bytes = [8, 9, 3, 4], capacity = 4\<rparr>, \<lparr>bytes = [8, 9], capacity = 2\<rparr>]
        \<lparr>ctor = Uint8Array, buffer = 0, byteOffset = 0, byteLength = 4, length_mv = 4\<rparr>
   \<and> (\<exists>w. subarray [\<lparr>bytes = [1, 2, 3, 4], capacity = 4\<rparr>]
              \<lparr>ctor = Uint8Array, buffer = 0, byteOffset = 0, byteLength = 4, length_mv = 4\<rparr>
              (Some 1) None
            = Inr ([\<lparr>bytes = [1, 2, 3, 4], capacity = 4\<rparr>], w)
          \<and> well_formed [\<lparr>bytes = [1, 2, 3, 4], capacity = 4\<rparr>] w)
   \<and> (\<exists>h2 w2. MemoryView_new Uint8Array [\<lparr>bytes = [1, 2, 3, 4], capacity = 4\<rparr>]
              (Args1 (SrcMemoryView
                 \<lparr>ctor = Uint8Array, buffer = 0, byteOffset = 0, byteLength = 4,
                    length_mv = 4\<rparr>))
            = Inr (h2, w2)
          \<and> well_formed h2 w2)
   \<and> (\<exists>w3. MemoryView_new Uint8Array [\<lparr>bytes = [1, 2, 3, 4], capacity = 4\<rparr>]
              (Args3 (SrcMemory 0) (Coerces (Num 0)) (Coerces (Num 4)))
            = Inr ([\<lparr>bytes = [1, 2, 3, 4], capacity = 4\<rparr>], w3)
          \<and> well_formed [\<lparr>bytes = [1, 2, 3, 4], capacity = 4\<rparr>] w3)"
proof -
  let ?h = "[\<lparr>bytes = [1, 2, 3, 4], capacity = 4\<rparr>]"
  let ?v = "\<lparr>ctor = Uint8Array, buffer = 0, byteOffset = 0, byteLength = 4, length_mv = 4\<rparr>"
  let ?h1 = "[\<lparr>bytes = [8, 9, 3, 4], capacity = 4\<rparr>, \<lparr>bytes = [8, 9], capacity = 2\<rparr>]"
  have new: "MemoryView_new Uint8Array ?h (Args1 (SrcMemory 0)) = Inr (?h, ?v)"
    by (simp add: asMemory_def)
  have cap: "length (bytes (?h ! 0)) \<le> capacity (?h ! 0)" by simp
  note inv = capacity_invariant [where T = Uint8Array and h = ?h and src = "SrcMemory 0"
      and q = 0 and ?h1.0 = ?h and w = ?v and v = ?v and sb = "Some 1" and se = None
      and array = "SrcArrayBufferView [8, 9]" and st = None
      and n = 0 and bs = "[]" and A = "[]" and u = ?v and p = 0 and off = "Num 0"
      and len = "Num 4" and start = None and end' = None and val = "[]" and en = None
      and tgt = TgtOther and E = "[]" and i = 0 and ps = "[]"]
  from inv new cap have wf: "well_formed ?h ?v" by blast
  have st: "set_mv ?h ?v (SrcArrayBufferView [8, 9]) None = Inr ?h1"
    by (simp add: eval_defs)
  from inv wf st have wf1: "well_formed ?h1 ?v" by blast
  from inv wf have sub: "\<exists>w. subarray ?h ?v (Some 1) None = Inr (?h, w) \<and> well_formed ?h w"
    by blast
  have vv: "valid_view ?h ?v" by (simp add: valid_view_def is_index_def)
  have o0: "byteOffset ?v = 0" by simp
  from inv vv o0 have fromv: "\<exists>h2 w2. MemoryView_new Uint8Array ?h (Args1 (SrcMemoryView ?v))
                                       = Inr (h2, w2) \<and> well_formed h2 w2"
    by blast
  have p: "(0::nat) < length ?h" by simp
  have fits: "or0 (Math_max0 (Num 0)) + or0 (Math_max0 (Num 4)) * BPE Uint8Array
                \<le> of_nat (capacity (?h ! 0))"
    by (simp add: or0_def Math_max0_def)
  from inv p fits have three: "\<exists>w3. MemoryView_new Uint8Array ?h
                                 (Args3 (SrcMemory 0) (Coerces (Num 0)) (Coerces (Num 4))) = Inr (?h, w3)
                               \<and> well_formed ?h w3"
    by blast
  from wf st wf1 sub fromv three show ?thesis by blast
qed

text \<open>
  The construction from a view that the invariant above leaves out: \<open>asMemory\<close> slices
  the buffer of the source from its \<open>byteOffset\<close> to its \<open>byteLength\<close>, not to their sum,
  so from a view of 6 bytes at offset 4 of a handle of 10 bytes it makes a view of 6 bytes
  over a handle of 2 bytes.
\<close>

lemma ctor_from_offset_view_example:
  "MemoryView_new Uint8Array [\<lparr>bytes = [0, 1, 2, 3, 4, 5, 6, 7, 8, 9], capacity = 10\<rparr>]
      (Args1 (SrcMemoryView
         \<lparr>ctor = Uint8Array, buffer = 0, byteOffset = 4, byteLength = 6, length_mv = 6\<rparr>))
     = Inr ([\<lparr>bytes = [0, 1, 2, 3, 4, 5, 6, 7, 8, 9], capacity = 10\<rparr>,
             \<lparr>bytes = [4, 5], capacity = 2\<rparr>],
            \<lparr>ctor = Uint8Array, buffer = 1, byteOffset = 0, byteLength = 6, length_mv = 6\<rparr>)"
  by (simp add: eval_defs)

text \<open>
  C1 as stated fails: the three-argument constructor takes any length, so a view of 10
  bytes over a handle of capacity 4 is constructed without complaint.
\<close>

theorem ctor_unchecked_range_counterexample:
  "MemoryView_new Uint8Array [\<lparr>bytes = [0, 0, 0, 0], capacity = 4\<rparr>]
      (Args3 (SrcMemory 0) (Coerces (Num 0)) (Coerces (Num 10)))
     = Inr ([\<lparr>bytes = [0, 0, 0, 0], capacity = 4\<rparr>],
            \<lparr>ctor = Uint8Array, buffer = 0, byteOffset = 0, byteLength = 10, length_mv = 10\<rparr>)
   \<and> \<not> byteOffset \<lparr>ctor = Uint8Array, buffer = 0, byteOffset = 0, byteLength = 10,
                      length_mv = 10\<rparr>
         + byteLength \<lparr>ctor = Uint8Array, buffer = 0, byteOffset = 0, byteLength = 10,
                        length_mv = 10\<rparr>
       \<le> of_nat (capacity ([\<lparr>bytes = [0, 0, 0, 0], capacity = 4\<rparr>] ! 0))"
  by (simp add: eval_defs)

end
